theory Spec2Isabelle
  imports Main "HOL-Library.Word"
begin

unbundle bit_operations_syntax

section \<open>Machine model\<close>

text \<open>
  The sources are \<^verbatim>\<open>mm/cma.c\<close> and \<^verbatim>\<open>include/linux/cma.h\<close> of a 32-bit ARM (OMAP)
  kernel tree: \<^verbatim>\<open>unsigned long\<close>, \<^verbatim>\<open>unsigned\<close>, \<^verbatim>\<open>int\<close> and pointers are all 32 bits
  wide.  An \<^verbatim>\<open>int\<close> is kept as a \<open>32 word\<close> and read with \<open>sint\<close> where its sign
  matters; the conversion of an \<^verbatim>\<open>int\<close> to \<^verbatim>\<open>unsigned long\<close> keeps the bits.
  A \<^verbatim>\<open>struct page *\<close> is represented by the page frame number it stands for, the
  result of \<^verbatim>\<open>phys_to_page\<close> by the physical address (\<open>None\<close> is \<^verbatim>\<open>NULL\<close>).
\<close>

type_synonym ulong = "32 word"
type_synonym cint = "32 word"

text \<open>
  \<^verbatim>\<open>PAGE_SHIFT\<close> comes from \<^verbatim>\<open>asm/page.h\<close>; \<^verbatim>\<open>cm_alloc\<close> itself turns an alignment
  in pages into one in bytes with \<^verbatim>\<open>order+12\<close>, so pages are 4096 bytes.
\<close>

definition PAGE_SHIFT :: nat where
  "PAGE_SHIFT = 12"

definition PAGE_SIZE :: ulong where
  "PAGE_SIZE = push_bit PAGE_SHIFT 1"

text \<open>\<^verbatim>\<open>__phys_to_pfn(paddr)\<close> is \<^verbatim>\<open>paddr >> PAGE_SHIFT\<close>.\<close>

definition phys_to_pfn :: "ulong \<Rightarrow> ulong" where
  "phys_to_pfn phys = drop_bit PAGE_SHIFT phys"

text \<open>
  The constants of the page allocator that \<^verbatim>\<open>cma.c\<close> uses but does not define
  (\<^verbatim>\<open>linux/mmzone.h\<close>, \<^verbatim>\<open>linux/pageblock-flags.h\<close>) are parameters of the model.
\<close>

record platform =
  MAX_ORDER :: nat
  pageblock_order :: nat
  ZONE_MOVABLE :: nat
  MIGRATE_MOVABLE :: cint
  MIGRATE_CMA :: cint

text \<open>\<^verbatim>\<open>#define MAX_ORDER_NR_PAGES (1 << (MAX_ORDER - 1))\<close>\<close>

definition MAX_ORDER_NR_PAGES :: "platform \<Rightarrow> ulong" where
  "MAX_ORDER_NR_PAGES cfg = push_bit (MAX_ORDER cfg - 1) 1"

text \<open>\<^verbatim>\<open>#define pageblock_nr_pages (1UL << pageblock_order)\<close>\<close>

definition pageblock_nr_pages :: "platform \<Rightarrow> ulong" where
  "pageblock_nr_pages cfg = push_bit (pageblock_order cfg) 1"

datatype errno = EINVAL | EOVERFLOW | ENOSPC | ENOMEM | EBUSY


section \<open>Initialise CMA: the region registrar\<close>

text \<open>
  The file-scope state of the registrar: the array \<^verbatim>\<open>cma_grabbed[8]\<close>, its fill
  count and the function pointer \<^verbatim>\<open>cma_give_back\<close>.  The effect of
  \<^verbatim>\<open>__free_pageblock_cma\<close> on the page allocator is recorded as the list of pages it
  was called with, in call order, next to the counter \<^verbatim>\<open>totalram_pages\<close>.
\<close>

datatype give_back_fn = Queue_give_back | Give_back

record boot_state =
  cma_grabbed :: "(ulong \<times> ulong) list"
  cma_grabbed_count :: "32 word"
  cma_give_back :: give_back_fn
  freed_pageblocks :: "ulong list"
  totalram_pages :: ulong

text \<open>The state at program start: eight array slots, none used, the pointer at the queue.\<close>

definition boot_init :: boot_state where
  "boot_init = \<lparr> cma_grabbed = replicate 8 (0, 0), cma_grabbed_count = 0,
     cma_give_back = Queue_give_back, freed_pageblocks = [], totalram_pages = 0 \<rparr>"

text \<open>
  \<^verbatim>\<open>__cma_give_back\<close>, the variant compiled without \<^verbatim>\<open>CONFIG_DEBUG_VM\<close>.  The body
  of the \<^verbatim>\<open>do ... while (--i)\<close> loop runs before the first test, so a count of zero
  wraps around.
\<close>

function give_back_loop :: "platform \<Rightarrow> ulong \<Rightarrow> 32 word \<Rightarrow> boot_state \<Rightarrow> boot_state" where
  "give_back_loop cfg p i s =
     (let s' = s\<lparr> freed_pageblocks := freed_pageblocks s @ [p],
                  totalram_pages := totalram_pages s + pageblock_nr_pages cfg \<rparr>;
          i' = i - 1
      in if i' = 0 then s' else give_back_loop cfg (p + pageblock_nr_pages cfg) i' s')"
  by pat_completeness auto
termination
proof (relation "measure (\<lambda>(cfg, p, i, s). unat (i - 1))")
  show "wf (measure (\<lambda>(cfg :: platform, p :: ulong, i :: 32 word, s :: boot_state). unat (i - 1)))"
    by simp
next
  fix cfg :: platform and p :: ulong and i x :: "32 word" and s s' :: boot_state
  assume x: "x = i - 1" and nz: "x \<noteq> 0"
  from nz have "unat (x - 1) < unat x"
    by (simp add: unat_minus_one unat_gt_0)
  then show "((cfg, p + pageblock_nr_pages cfg, x, s'), (cfg, p, i, s))
      \<in> measure (\<lambda>(cfg, p, i, s). unat (i - 1))"
    by (simp add: x)
qed

definition uu_cma_give_back :: "platform \<Rightarrow> ulong \<Rightarrow> ulong \<Rightarrow> boot_state \<Rightarrow> boot_state" where
  "uu_cma_give_back cfg start sz s =
     give_back_loop cfg (phys_to_pfn start)
       (drop_bit (PAGE_SHIFT + pageblock_order cfg) sz) s"

text \<open>\<^verbatim>\<open>__cma_queue_give_back\<close>; \<^verbatim>\<open>ARRAY_SIZE(cma_grabbed)\<close> is 8.\<close>

definition uu_cma_queue_give_back ::
    "ulong \<Rightarrow> ulong \<Rightarrow> boot_state \<Rightarrow> (errno + unit) \<times> boot_state" where
  "uu_cma_queue_give_back start sz s =
     (if cma_grabbed_count s = 8 then (Inl ENOSPC, s)
      else (Inr (), s\<lparr> cma_grabbed := (cma_grabbed s)[unat (cma_grabbed_count s) := (start, sz)],
                       cma_grabbed_count := cma_grabbed_count s + 1 \<rparr>))"

text \<open>A call through the pointer \<^verbatim>\<open>cma_give_back\<close>.\<close>

definition call_cma_give_back ::
    "platform \<Rightarrow> ulong \<Rightarrow> ulong \<Rightarrow> boot_state \<Rightarrow> (errno + unit) \<times> boot_state" where
  "call_cma_give_back cfg start sz s =
     (case cma_give_back s of
        Queue_give_back \<Rightarrow> uu_cma_queue_give_back start sz s
      | Give_back \<Rightarrow> (Inr (), uu_cma_give_back cfg start sz s))"

text \<open>The \<^verbatim>\<open>for (; i; --i, ++r)\<close> loop of \<^verbatim>\<open>cma_give_back_queued\<close>; \<open>r\<close> indexes the array.\<close>

function give_back_queued_loop :: "platform \<Rightarrow> nat \<Rightarrow> 32 word \<Rightarrow> boot_state \<Rightarrow> boot_state" where
  "give_back_queued_loop cfg r i s =
     (if i = 0 then s
      else give_back_queued_loop cfg (r + 1) (i - 1)
             (uu_cma_give_back cfg (fst (cma_grabbed s ! r)) (snd (cma_grabbed s ! r)) s))"
  by pat_completeness auto
termination
  by (relation "measure (\<lambda>(cfg, r, i, s). unat i)") (simp_all add: unat_minus_one unat_gt_0)

definition cma_give_back_queued :: "platform \<Rightarrow> boot_state \<Rightarrow> boot_state" where
  "cma_give_back_queued cfg s =
     give_back_queued_loop cfg 0 (cma_grabbed_count s) (s\<lparr> cma_give_back := Give_back \<rparr>)"

definition cma_init_migratetype ::
    "platform \<Rightarrow> ulong \<Rightarrow> ulong \<Rightarrow> boot_state \<Rightarrow> (errno + unit) \<times> boot_state" where
  "cma_init_migratetype cfg start sz s =
     (if sz = 0 then (Inl EINVAL, s)
      else if (start OR sz) AND (push_bit PAGE_SHIFT (MAX_ORDER_NR_PAGES cfg) - 1) \<noteq> 0
        then (Inl EINVAL, s)
      else if start + sz < start then (Inl EOVERFLOW, s)
      else call_cma_give_back cfg start sz s)"

text \<open>
  The array accesses of the registrar stay inside the eight slots as long as the fill
  count is at most eight, which the guard of \<^verbatim>\<open>__cma_queue_give_back\<close> maintains.
\<close>

definition boot_ok :: "boot_state \<Rightarrow> bool" where
  "boot_ok s \<longleftrightarrow> length (cma_grabbed s) = 8 \<and> unat (cma_grabbed_count s) \<le> 8"

text \<open>The pending registrations, oldest first.\<close>

definition pending :: "boot_state \<Rightarrow> (ulong \<times> ulong) list" where
  "pending s = take (unat (cma_grabbed_count s)) (cma_grabbed s)"


text \<open>
  The large-granule unit of a registration, \<^verbatim>\<open>MAX_ORDER_NR_PAGES << PAGE_SHIFT\<close>, as a
  number of bytes.
\<close>

definition granule :: "platform \<Rightarrow> nat" where
  "granule cfg = 2 ^ (MAX_ORDER cfg - 1 + PAGE_SHIFT)"

text \<open>
  The two entry points that touch the registrar's state: a registration and the
  \<^verbatim>\<open>core_initcall\<close>.  \<open>transitions\<close> counts, along a run, the steps that take
  the pointer \<^verbatim>\<open>cma_give_back\<close> from the queueing function to the marking one.
\<close>

datatype boot_op = Register ulong ulong | Initcall

fun boot_step :: "platform \<Rightarrow> boot_op \<Rightarrow> boot_state \<Rightarrow> boot_state" where
  "boot_step cfg (Register start sz) s = snd (cma_init_migratetype cfg start sz s)"
| "boot_step cfg Initcall s = cma_give_back_queued cfg s"

fun transitions :: "platform \<Rightarrow> boot_state \<Rightarrow> boot_op list \<Rightarrow> nat" where
  "transitions cfg s [] = 0"
| "transitions cfg s (x # xs) =
     (if cma_give_back s = Queue_give_back \<and> cma_give_back (boot_step cfg x s) = Give_back
      then 1 else 0) + transitions cfg (boot_step cfg x s) xs"

text \<open>The marking effect applied to a list of regions, first to last.\<close>

definition replay :: "platform \<Rightarrow> (ulong \<times> ulong) list \<Rightarrow> boot_state \<Rightarrow> boot_state" where
  "replay cfg q s = fold (\<lambda>(start, sz). uu_cma_give_back cfg start sz) q s"

section \<open>The Range Pool\<close>

text \<open>
  Modelled from the spec: \<^verbatim>\<open>lib/genalloc.c\<close> (\<^verbatim>\<open>gen_pool_create\<close>, \<^verbatim>\<open>gen_pool_add\<close>,
  \<^verbatim>\<open>gen_pool_alloc_aligned\<close>, \<^verbatim>\<open>gen_pool_free\<close>, \<^verbatim>\<open>gen_pool_destroy\<close>) is not among
  the sources.  The pool covers one region with a free map at the granularity it was
  created with, one flag per unit (\<open>True\<close>: taken).  \<open>take\<close> is a first-fit search for
  a run of free units whose address honours the requested power-of-two alignment and
  answers \<open>None\<close> when there is none (the C function answers 0, which \<^verbatim>\<open>cm_alloc\<close>
  tests); \<open>give_back\<close> clears the flags of the units of the range it is given.
\<close>

record gen_pool =
  pool_order :: nat
  chunk_start :: ulong
  chunk_bits :: "bool list"

text \<open>
  Modelled from the spec: \<^verbatim>\<open>gen_pool_create\<close> is missing; the spec has the new pool
  empty, at the granularity it is created with.
\<close>

definition gen_pool_create :: "nat \<Rightarrow> gen_pool" where
  "gen_pool_create ord = \<lparr> pool_order = ord, chunk_start = 0, chunk_bits = [] \<rparr>"

text \<open>
  Modelled from the spec: \<^verbatim>\<open>gen_pool_add\<close> is missing; the spec seeds the pool with
  the full span \<open>[start, start + sz)\<close> as free.
\<close>

definition gen_pool_add :: "gen_pool \<Rightarrow> ulong \<Rightarrow> ulong \<Rightarrow> gen_pool" where
  "gen_pool_add p start sz =
     p\<lparr> chunk_start := start, chunk_bits := replicate (unat sz div 2 ^ pool_order p) False \<rparr>"

text \<open>The number of units that cover \<open>sz\<close> bytes, and the address of unit \<open>i\<close>.\<close>

definition units :: "gen_pool \<Rightarrow> ulong \<Rightarrow> nat" where
  "units p sz = (unat sz + 2 ^ pool_order p - 1) div 2 ^ pool_order p"

definition unit_addr :: "gen_pool \<Rightarrow> nat \<Rightarrow> ulong" where
  "unit_addr p i = chunk_start p + of_nat (i * 2 ^ pool_order p)"

definition range_free :: "bool list \<Rightarrow> nat \<Rightarrow> nat \<Rightarrow> bool" where
  "range_free bits i n \<longleftrightarrow> i + n \<le> length bits \<and> list_all (\<lambda>b. \<not> b) (take n (drop i bits))"

definition set_range :: "bool list \<Rightarrow> nat \<Rightarrow> nat \<Rightarrow> bool \<Rightarrow> bool list" where
  "set_range bits i n v = map (\<lambda>j. if i \<le> j \<and> j < i + n then v else bits ! j) [0..<length bits]"

text \<open>
  Modelled from the spec: \<^verbatim>\<open>gen_pool_alloc_aligned\<close> is missing; the spec's \<open>take\<close> is
  a first-fit search over the free extents that honours the requested power-of-two
  alignment (here of the address, in bytes) and answers "none" if no extent satisfies
  both size and alignment.
\<close>

definition gen_pool_alloc_aligned :: "gen_pool \<Rightarrow> ulong \<Rightarrow> nat \<Rightarrow> (ulong \<times> gen_pool) option" where
  "gen_pool_alloc_aligned p sz alignment_order =
     (case find (\<lambda>i. 2 ^ alignment_order dvd unat (unit_addr p i) \<and>
                     range_free (chunk_bits p) i (units p sz))
                [0..<length (chunk_bits p)] of
        None \<Rightarrow> None
      | Some i \<Rightarrow> Some (unit_addr p i,
                        p\<lparr> chunk_bits := set_range (chunk_bits p) i (units p sz) True \<rparr>))"

text \<open>
  Modelled from the spec: \<^verbatim>\<open>gen_pool_free\<close> is missing; the spec's \<open>give_back\<close>
  returns a range to the pool.  The spec leaves a range that was not taken undefined;
  the model clears whichever units of the range lie inside the pool.
\<close>

definition gen_pool_free :: "gen_pool \<Rightarrow> ulong \<Rightarrow> ulong \<Rightarrow> gen_pool" where
  "gen_pool_free p addr sz =
     p\<lparr> chunk_bits := set_range (chunk_bits p)
          (unat (addr - chunk_start p) div 2 ^ pool_order p) (units p sz) False \<rparr>"

text \<open>
  A pool as \<^verbatim>\<open>cma_create\<close> builds it: page granularity, and a region that ends inside
  the 32-bit address space.
\<close>

definition pool_wf :: "gen_pool \<Rightarrow> bool" where
  "pool_wf p \<longleftrightarrow> pool_order p = PAGE_SHIFT \<and>
     unat (chunk_start p) + 2 ^ PAGE_SHIFT * length (chunk_bits p) \<le> 2 ^ 32"

text \<open>The free space of a pool, in bytes.\<close>

definition gen_pool_avail :: "gen_pool \<Rightarrow> nat" where
  "gen_pool_avail p = 2 ^ pool_order p * count_list (chunk_bits p) False"


section \<open>CMA context\<close>

text \<open>
  The kernel state the context functions work on: the live \<^verbatim>\<open>struct cma\<close> objects and
  pools by address, the state of the page allocator (opaque, of type \<open>'m\<close>), and the
  calls made to the mutex, the page allocator and the heap, in order.
\<close>

record cma =
  migratetype :: cint
  pool :: ulong

datatype event =
    Mutex_lock
  | Mutex_unlock
  | Alloc_contig_range ulong ulong cint
  | Free_contig_pages ulong cint
  | Kmalloc ulong
  | Kfree ulong
  | Gen_pool_create ulong
  | Gen_pool_destroy ulong

record 'm kernel =
  cma_objs :: "ulong \<rightharpoonup> cma"
  pool_objs :: "ulong \<rightharpoonup> gen_pool"
  mm :: 'm
  trace :: "event list"

text \<open>
  What \<^verbatim>\<open>cma.c\<close> consumes from the rest of the kernel and does not define: the queries
  on pages (a page is named by its frame number), the two heap allocations of
  \<^verbatim>\<open>cma_create\<close> and the failure of \<^verbatim>\<open>gen_pool_add\<close>, whose outcome the heap decides
  (0 is \<^verbatim>\<open>NULL\<close>), and the two range operations of the page allocator
  (\<^verbatim>\<open>alloc_contig_range\<close> answers 0 on success).
\<close>

record 'm extern =
  pfn_valid :: "'m \<Rightarrow> ulong \<Rightarrow> bool"
  page_zone :: "'m \<Rightarrow> ulong \<Rightarrow> nat"
  page_zonenum :: "'m \<Rightarrow> ulong \<Rightarrow> nat"
  get_pageblock_migratetype :: "'m \<Rightarrow> ulong \<Rightarrow> cint"
  kmalloc :: "'m \<Rightarrow> ulong \<times> 'm"
  pool_kmalloc :: "'m \<Rightarrow> ulong \<times> 'm"
  chunk_kmalloc :: "'m \<Rightarrow> bool \<times> 'm"
  alloc_contig_range :: "ulong \<Rightarrow> ulong \<Rightarrow> cint \<Rightarrow> 'm \<Rightarrow> cint \<times> 'm"
  free_contig_pages :: "ulong \<Rightarrow> cint \<Rightarrow> 'm \<Rightarrow> 'm"

text \<open>\<^verbatim>\<open>#define ALIGN(x, a) (((x) + (a) - 1) & ~((a) - 1))\<close>\<close>

definition ALIGN :: "ulong \<Rightarrow> ulong \<Rightarrow> ulong" where
  "ALIGN x a = (x + (a - 1)) AND NOT (a - 1)"

text \<open>
  The first loop of \<^verbatim>\<open>__cma_check_range\<close>, \<^verbatim>\<open>while (++pfn, --count)\<close>; it answers the
  value of \<open>pfn\<close> when the loop is left.
\<close>

function check_zone_loop :: "'m extern \<Rightarrow> 'm \<Rightarrow> nat \<Rightarrow> ulong \<Rightarrow> ulong \<Rightarrow> errno + ulong" where
  "check_zone_loop ext m zone pfn count =
     (let pfn' = pfn + 1; count' = count - 1
      in if count' = 0 then Inr pfn'
         else if \<not> pfn_valid ext m pfn' \<or> page_zone ext m pfn' \<noteq> zone then Inl EINVAL
         else check_zone_loop ext m zone pfn' count')"
  by pat_completeness auto
termination
proof (relation "measure (\<lambda>(ext, m, zone, pfn, count). unat (count - 1))")
  show "wf (measure (\<lambda>(ext :: 'm extern, m :: 'm, zone :: nat, pfn :: ulong, count :: ulong).
      unat (count - 1)))"
    by simp
next
  fix ext :: "'m extern" and m :: 'm and zone :: nat and pfn x xa count :: ulong
  assume x: "xa = count - 1" and nz: "xa \<noteq> 0"
  from nz have "unat (xa - 1) < unat xa"
    by (simp add: unat_minus_one unat_gt_0)
  then show "((ext, m, zone, x, xa), (ext, m, zone, pfn, count))
      \<in> measure (\<lambda>(ext, m, zone, pfn, count). unat (count - 1))"
    by (simp add: x)
qed

text \<open>The second loop, \<^verbatim>\<open>do ... while (--count)\<close>, over the pageblocks.\<close>

function check_block_loop ::
    "platform \<Rightarrow> 'm extern \<Rightarrow> 'm \<Rightarrow> cint \<Rightarrow> ulong \<Rightarrow> ulong \<Rightarrow> errno + unit" where
  "check_block_loop cfg ext m mt page count =
     (if get_pageblock_migratetype ext m page \<noteq> mt then Inl EINVAL
      else let count' = count - 1
           in if count' = 0 then Inr ()
              else check_block_loop cfg ext m mt (page + pageblock_nr_pages cfg) count')"
  by pat_completeness auto
termination
proof (relation "measure (\<lambda>(cfg, ext, m, mt, page, count). unat (count - 1))")
  show "wf (measure (\<lambda>(cfg :: platform, ext :: 'm extern, m :: 'm, mt :: cint, page :: ulong,
      count :: ulong). unat (count - 1)))"
    by simp
next
  fix cfg :: platform and ext :: "'m extern" and m :: 'm and mt :: cint
    and page x count :: ulong
  assume x: "x = count - 1" and nz: "x \<noteq> 0"
  from nz have "unat (x - 1) < unat x"
    by (simp add: unat_minus_one unat_gt_0)
  then show "((cfg, ext, m, mt, page + pageblock_nr_pages cfg, x), (cfg, ext, m, mt, page, count))
      \<in> measure (\<lambda>(cfg, ext, m, mt, page, count). unat (count - 1))"
    by (simp add: x)
qed

text \<open>
  \<^verbatim>\<open>__cma_check_range\<close>.  It answers the migratetype or \<^verbatim>\<open>-EINVAL\<close>; the migratetypes
  are enumeration constants, so the caller's test \<^verbatim>\<open>migratetype < 0\<close> singles out the
  error.
\<close>

definition uu_cma_check_range ::
    "platform \<Rightarrow> 'm extern \<Rightarrow> 'm \<Rightarrow> ulong \<Rightarrow> ulong \<Rightarrow> errno + cint" where
  "uu_cma_check_range cfg ext m start0 sz =
     (let start = phys_to_pfn start0
      in if \<not> pfn_valid ext m start then Inl EINVAL
         else
           let migratetype = (if page_zonenum ext m start \<noteq> ZONE_MOVABLE cfg
                              then MIGRATE_CMA cfg else MIGRATE_MOVABLE cfg);
               zone = page_zone ext m start;
               count = drop_bit PAGE_SHIFT sz
           in case check_zone_loop ext m zone start count of
                Inl e \<Rightarrow> Inl e
              | Inr pfn \<Rightarrow>
                  let start' = start AND NOT (pageblock_nr_pages cfg - 1);
                      pfn' = ALIGN pfn (pageblock_nr_pages cfg);
                      count' = drop_bit PAGE_SHIFT (pfn' - start')
                  in case check_block_loop cfg ext m migratetype start' count' of
                       Inl e \<Rightarrow> Inl e
                     | Inr u \<Rightarrow> Inr migratetype)"

text \<open>
  The heap calls.  A fresh \<^verbatim>\<open>struct cma\<close> holds no meaningful fields until
  \<^verbatim>\<open>cma_create\<close> assigns them; the model stores zeros, which nothing reads.
\<close>

definition do_kmalloc :: "'m extern \<Rightarrow> 'm kernel \<Rightarrow> ulong \<times> 'm kernel" where
  "do_kmalloc ext st =
     (let (p, m') = kmalloc ext (mm st)
      in (p, st\<lparr> cma_objs := (if p = 0 then cma_objs st
                                else (cma_objs st)(p \<mapsto> \<lparr> migratetype = 0, pool = 0 \<rparr>)),
                  mm := m', trace := trace st @ [Kmalloc p] \<rparr>))"

definition kfree :: "ulong \<Rightarrow> 'm kernel \<Rightarrow> 'm kernel" where
  "kfree p st = st\<lparr> cma_objs := (cma_objs st)(p := None), trace := trace st @ [Kfree p] \<rparr>"

definition do_gen_pool_create :: "'m extern \<Rightarrow> nat \<Rightarrow> 'm kernel \<Rightarrow> ulong \<times> 'm kernel" where
  "do_gen_pool_create ext ord st =
     (let (p, m') = pool_kmalloc ext (mm st)
      in (p, st\<lparr> pool_objs := (if p = 0 then pool_objs st
                                 else (pool_objs st)(p \<mapsto> gen_pool_create ord)),
                  mm := m', trace := trace st @ [Gen_pool_create p] \<rparr>))"

definition do_gen_pool_add ::
    "'m extern \<Rightarrow> ulong \<Rightarrow> ulong \<Rightarrow> ulong \<Rightarrow> 'm kernel \<Rightarrow> (errno + unit) \<times> 'm kernel" where
  "do_gen_pool_add ext p start sz st =
     (let (ok, m') = chunk_kmalloc ext (mm st)
      in if ok then (Inr (), st\<lparr> pool_objs := (case pool_objs st p of
                                     None \<Rightarrow> pool_objs st
                                   | Some g \<Rightarrow> (pool_objs st)(p \<mapsto> gen_pool_add g start sz)),
                                 mm := m' \<rparr>)
         else (Inl ENOMEM, st\<lparr> mm := m' \<rparr>))"

text \<open>
  Modelled from the spec: \<^verbatim>\<open>gen_pool_destroy\<close> is missing; the spec has it release
  the pool's bookkeeping.
\<close>

definition do_gen_pool_destroy :: "ulong \<Rightarrow> 'm kernel \<Rightarrow> 'm kernel" where
  "do_gen_pool_destroy p st =
     st\<lparr> pool_objs := (pool_objs st)(p := None), trace := trace st @ [Gen_pool_destroy p] \<rparr>"

definition cma_create ::
    "platform \<Rightarrow> 'm extern \<Rightarrow> ulong \<Rightarrow> ulong \<Rightarrow> 'm kernel \<Rightarrow> (errno + ulong) \<times> 'm kernel" where
  "cma_create cfg ext start sz st =
     (if sz = 0 then (Inl EINVAL, st)
      else if (start OR sz) AND (PAGE_SIZE - 1) \<noteq> 0 then (Inl EINVAL, st)
      else if start + sz < start then (Inl EOVERFLOW, st)
      else case uu_cma_check_range cfg ext (mm st) start sz of
        Inl e \<Rightarrow> (Inl e, st)
      | Inr mt \<Rightarrow>
          (case do_kmalloc ext st of (cma, st1) \<Rightarrow>
             if cma = 0 then (Inl ENOMEM, st1)
             else case do_gen_pool_create ext PAGE_SHIFT st1 of (pl, st2) \<Rightarrow>
               if pl = 0 then (Inl ENOMEM, kfree cma st2)
               else case do_gen_pool_add ext pl start sz st2 of
                 (Inl e, st3) \<Rightarrow> (Inl e, kfree cma (do_gen_pool_destroy pl st3))
               | (Inr u, st3) \<Rightarrow>
                   (Inr cma, st3\<lparr> cma_objs := (cma_objs st3)(cma \<mapsto>
                                     \<lparr> migratetype = mt, pool = pl \<rparr>) \<rparr>)))"

text \<open>
  \<^verbatim>\<open>cma_destroy\<close>.  The outer \<open>None\<close> of this and the following functions stands for
  the dereference of a pointer that is not a live object.
\<close>

definition cma_destroy :: "ulong \<Rightarrow> 'm kernel \<Rightarrow> 'm kernel option" where
  "cma_destroy cma st =
     (case cma_objs st cma of
        None \<Rightarrow> None
      | Some c \<Rightarrow> Some (do_gen_pool_destroy (pool c) st))"


section \<open>Allocate and free\<close>

definition emit :: "event \<Rightarrow> 'm kernel \<Rightarrow> 'm kernel" where
  "emit e st = st\<lparr> trace := trace st @ [e] \<rparr>"

text \<open>
  Modelled from the spec: what the missing C function \<^verbatim>\<open>gen_pool_alloc_aligned\<close>
  hands to its caller, given the answer of the spec's \<open>take\<close>: the address taken, or
  0 for "none", and the pool as the call leaves it.
\<close>

definition alloc_result :: "gen_pool \<Rightarrow> (ulong \<times> gen_pool) option \<Rightarrow> ulong \<times> gen_pool" where
  "alloc_result p r = (case r of None \<Rightarrow> (0, p) | Some (a, p') \<Rightarrow> (a, p'))"

text \<open>
  \<^verbatim>\<open>cm_alloc\<close>.  The result \<open>Some start\<close> stands for \<^verbatim>\<open>phys_to_page(start)\<close>, \<open>None\<close>
  for \<^verbatim>\<open>NULL\<close>.  \<^verbatim>\<open>count << PAGE_SHIFT\<close> is a shift of an \<^verbatim>\<open>int\<close> and \<^verbatim>\<open>order+12\<close> a sum of
  \<^verbatim>\<open>unsigned\<close>: both wrap at 32 bits.  The test \<^verbatim>\<open>if (!start) goto error1\<close> is on the
  address: \<^verbatim>\<open>error1\<close> only releases the mutex, whatever the pool has done.
\<close>

definition cm_alloc ::
    "'m extern \<Rightarrow> ulong \<Rightarrow> cint \<Rightarrow> 32 word \<Rightarrow> 'm kernel \<Rightarrow> (ulong option \<times> 'm kernel) option" where
  "cm_alloc ext cma count ord st =
     (let sz = push_bit PAGE_SHIFT count
      in if cma = 0 then Some (None, st)
         else if sz = 0 then Some (None, st)
         else
           let st1 = emit Mutex_lock st
           in case cma_objs st1 cma of
                None \<Rightarrow> None
              | Some c \<Rightarrow>
                 (case pool_objs st1 (pool c) of
                    None \<Rightarrow> None
                  | Some p \<Rightarrow>
                      let (start, p') = alloc_result p
                                          (gen_pool_alloc_aligned p sz (unat (ord + 12)));
                          st2 = st1\<lparr> pool_objs := (pool_objs st1)(pool c \<mapsto> p') \<rparr>
                      in if start = 0 then Some (None, emit Mutex_unlock st2)
                         else if migratetype c \<noteq> 0 then
                           let pfn = phys_to_pfn start;
                               pfn_end = pfn + drop_bit PAGE_SHIFT sz;
                               (ret, m') = alloc_contig_range ext pfn pfn_end (migratetype c) (mm st2);
                               st3 = emit (Alloc_contig_range pfn pfn_end (migratetype c))
                                       (st2\<lparr> mm := m' \<rparr>)
                           in if ret \<noteq> 0 then
                                Some (None, emit Mutex_unlock
                                  (st3\<lparr> pool_objs := (pool_objs st3)(pool c \<mapsto>
                                           gen_pool_free p' start sz) \<rparr>))
                              else Some (Some start, emit Mutex_unlock st3)
                         else Some (Some start, emit Mutex_unlock st2)))"

text \<open>\<^verbatim>\<open>cm_free\<close>; \<open>pages\<close> is the physical address of the first page, \<open>None\<close> for \<^verbatim>\<open>NULL\<close>.\<close>

definition cm_free ::
    "'m extern \<Rightarrow> ulong \<Rightarrow> ulong option \<Rightarrow> cint \<Rightarrow> 'm kernel \<Rightarrow> 'm kernel option" where
  "cm_free ext cma pages count st =
     (let sz = push_bit PAGE_SHIFT count
      in case pages of
           None \<Rightarrow> Some st
         | Some phys \<Rightarrow>
             if cma = 0 then Some st
             else
               let st1 = emit Mutex_lock st
               in case cma_objs st1 cma of
                    None \<Rightarrow> None
                  | Some c \<Rightarrow>
                     (case pool_objs st1 (pool c) of
                        None \<Rightarrow> None
                      | Some p \<Rightarrow>
                          let st2 = st1\<lparr> pool_objs := (pool_objs st1)(pool c \<mapsto>
                                          gen_pool_free p phys sz) \<rparr>;
                              st3 = (if migratetype c \<noteq> 0
                                     then emit (Free_contig_pages (phys_to_pfn phys) count)
                                            (st2\<lparr> mm := free_contig_pages ext (phys_to_pfn phys) count (mm st2) \<rparr>)
                                     else st2)
                          in Some (emit Mutex_unlock st3)))"

text \<open>
  The calls a function added to the trace, and whether one of them is the eviction of
  a range.
\<close>

definition new_events :: "'m kernel \<Rightarrow> 'm kernel \<Rightarrow> event list" where
  "new_events st st' = drop (length (trace st)) (trace st')"

definition is_evict :: "event \<Rightarrow> bool" where
  "is_evict e = (case e of Alloc_contig_range a b c \<Rightarrow> True | _ \<Rightarrow> False)"

text \<open>
  \<open>claimed p p' a n\<close>: the pool \<open>p'\<close> is \<open>p\<close> with exactly the \<open>n\<close> pages that start at
  address \<open>a\<close> newly taken, all of them free before.  \<open>aligned_pages a k\<close>: the
  address \<open>a\<close> is a multiple of \<open>2 ^ k\<close> pages.
\<close>

definition claimed :: "gen_pool \<Rightarrow> gen_pool \<Rightarrow> ulong \<Rightarrow> nat \<Rightarrow> bool" where
  "claimed p p' a n \<longleftrightarrow>
     list_ex (\<lambda>i. unat a = unat (chunk_start p) + i * 2 ^ PAGE_SHIFT \<and>
                  range_free (chunk_bits p) i n \<and>
                  p' = p\<lparr> chunk_bits := set_range (chunk_bits p) i n True \<rparr>)
       [0..<length (chunk_bits p)]"

definition aligned_pages :: "ulong \<Rightarrow> nat \<Rightarrow> bool" where
  "aligned_pages a k \<longleftrightarrow> 2 ^ k * 2 ^ PAGE_SHIFT dvd unat a"


text \<open>
  A client of one context: it allocates, and it frees allocations it holds, each with
  the count it was allocated with (\<open>Free k\<close> frees the \<open>k\<close>-th allocation
  outstanding).  \<open>run_ops\<close> threads the kernel state and the list of outstanding
  allocations, each a start address and a count, through a sequence of such calls.
\<close>

datatype cm_op = Alloc cint "32 word" | Free nat

fun run_ops ::
    "'m extern \<Rightarrow> ulong \<Rightarrow> cm_op list \<Rightarrow> 'm kernel \<Rightarrow> (ulong \<times> cint) list \<Rightarrow>
     ('m kernel \<times> (ulong \<times> cint) list) option" where
  "run_ops ext cma [] st outs = Some (st, outs)"
| "run_ops ext cma (Alloc count ord # ops) st outs =
     (case cm_alloc ext cma count ord st of
        None \<Rightarrow> None
      | Some (None, st') \<Rightarrow> run_ops ext cma ops st' outs
      | Some (Some a, st') \<Rightarrow> run_ops ext cma ops st' (outs @ [(a, count)]))"
| "run_ops ext cma (Free k # ops) st outs =
     (if k < length outs then
        (case cm_free ext cma (Some (fst (outs ! k))) (snd (outs ! k)) st of
           None \<Rightarrow> None
         | Some st' \<Rightarrow> run_ops ext cma ops st' (take k outs @ drop (Suc k) outs))
      else run_ops ext cma ops st outs)"

text \<open>
  The size of an allocation in bytes, its count of pages times the page size; the
  bytes outstanding; two allocations whose byte ranges do not meet; a list of
  allocations no two of which overlap; and the pool a context points to.
\<close>

definition alloc_bytes :: "ulong \<times> cint \<Rightarrow> nat" where
  "alloc_bytes x = nat (sint (snd x)) * 2 ^ PAGE_SHIFT"

definition outstanding_bytes :: "(ulong \<times> cint) list \<Rightarrow> nat" where
  "outstanding_bytes outs = sum_list (map alloc_bytes outs)"

definition apart :: "ulong \<times> cint \<Rightarrow> ulong \<times> cint \<Rightarrow> bool" where
  "apart x y \<longleftrightarrow> unat (fst x) + alloc_bytes x \<le> unat (fst y) \<or>
                 unat (fst y) + alloc_bytes y \<le> unat (fst x)"

definition no_overlap :: "(ulong \<times> cint) list \<Rightarrow> bool" where
  "no_overlap outs = sorted_wrt apart outs"

definition ctx_pool :: "'m kernel \<Rightarrow> ulong \<Rightarrow> gen_pool option" where
  "ctx_pool st cma = (case cma_objs st cma of None \<Rightarrow> None | Some c \<Rightarrow> pool_objs st (pool c))"


text \<open>
  The bookkeeping behind the accounting: the first unit and the number of units of an
  allocation, an allocation all of whose units are marked taken, two allocations with
  disjoint unit ranges, and the invariant that ties a pool to the allocations
  outstanding on it.
\<close>

definition lo :: "gen_pool \<Rightarrow> ulong \<times> cint \<Rightarrow> nat" where
  "lo p x = unat (fst x - chunk_start p) div 2 ^ pool_order p"

definition len :: "gen_pool \<Rightarrow> ulong \<times> cint \<Rightarrow> nat" where
  "len p x = units p (push_bit PAGE_SHIFT (snd x))"

definition held :: "gen_pool \<Rightarrow> ulong \<times> cint \<Rightarrow> bool" where
  "held p x \<longleftrightarrow> fst x = unit_addr p (lo p x) \<and> lo p x + len p x \<le> length (chunk_bits p) \<and>
     0 < len p x \<and> (\<forall>j. lo p x \<le> j \<and> j < lo p x + len p x \<longrightarrow> chunk_bits p ! j)"

definition sep :: "gen_pool \<Rightarrow> ulong \<times> cint \<Rightarrow> ulong \<times> cint \<Rightarrow> bool" where
  "sep p x y \<longleftrightarrow> lo p x + len p x \<le> lo p y \<or> lo p y + len p y \<le> lo p x"

definition pool_inv :: "gen_pool \<Rightarrow> (ulong \<times> cint) list \<Rightarrow> bool" where
  "pool_inv p outs \<longleftrightarrow> pool_wf p \<and> (\<forall>x\<in>set outs. held p x) \<and> sorted_wrt (sep p) outs \<and>
     count_list (chunk_bits p) True = sum_list (map (len p) outs)"

text \<open>The calls made by one call of \<^verbatim>\<open>cm_alloc\<close>.\<close>

definition alloc_events :: "'m extern \<Rightarrow> ulong \<Rightarrow> cint \<Rightarrow> 32 word \<Rightarrow> 'm kernel \<Rightarrow> event list" where
  "alloc_events ext cma count ord st =
     (case cm_alloc ext cma count ord st of None \<Rightarrow> [] | Some (r, st') \<Rightarrow> new_events st st')"



section \<open>Example values\<close>

text \<open>Example values: 4 MiB granules, pageblocks of 1024 pages.\<close>

definition example_platform :: platform where
  "example_platform = \<lparr> MAX_ORDER = 11, pageblock_order = 10, ZONE_MOVABLE = 2,
     MIGRATE_MOVABLE = 2, MIGRATE_CMA = 4 \<rparr>"

text \<open>One region queued, all eight slots used, and the registrar after the initcall.\<close>

definition example_queued :: boot_state where
  "example_queued = boot_init\<lparr> cma_grabbed := (cma_grabbed boot_init)[0 := (0x80000000, 0x400000)],
     cma_grabbed_count := 1 \<rparr>"

definition example_full :: boot_state where
  "example_full = boot_init\<lparr> cma_grabbed := replicate 8 (0x80000000, 0x400000),
     cma_grabbed_count := 8 \<rparr>"

definition example_ready :: boot_state where
  "example_ready = boot_init\<lparr> cma_give_back := Give_back \<rparr>"


text \<open>
  A page allocator that finds every page valid, in one zone that is not the movable one,
  with every pageblock tagged 4, and whose operations all succeed; and one whose range
  eviction fails.
\<close>

definition example_extern :: "unit extern" where
  "example_extern = \<lparr> pfn_valid = (\<lambda>m pfn. True), page_zone = (\<lambda>m pfn. 0),
     page_zonenum = (\<lambda>m pfn. 0), get_pageblock_migratetype = (\<lambda>m pfn. 4),
     kmalloc = (\<lambda>m. (0x1000, m)), pool_kmalloc = (\<lambda>m. (0x2000, m)),
     chunk_kmalloc = (\<lambda>m. (True, m)),
     alloc_contig_range = (\<lambda>pfn pfn_end mt m. (0, m)),
     free_contig_pages = (\<lambda>page count m. m) \<rparr>"

definition example_busy :: "unit extern" where
  "example_busy = example_extern\<lparr> alloc_contig_range := (\<lambda>pfn pfn_end mt m. (- 16, m)) \<rparr>"

text \<open>
  A context over four pages at \<^verbatim>\<open>0x80000000\<close>, with a non-zero migratetype and with
  migratetype zero, and the states after one and two pages have been handed out.
\<close>

definition example_cma :: cma where
  "example_cma = \<lparr> migratetype = 4, pool = 0x2000 \<rparr>"

definition example_pool :: gen_pool where
  "example_pool = \<lparr> pool_order = 12, chunk_start = 0x80000000,
     chunk_bits = [False, False, False, False] \<rparr>"

definition example_pool_one :: gen_pool where
  "example_pool_one = example_pool\<lparr> chunk_bits := [True, False, False, False] \<rparr>"

definition example_pool_two :: gen_pool where
  "example_pool_two = example_pool\<lparr> chunk_bits := [True, True, False, False] \<rparr>"

definition example_kernel :: "unit kernel" where
  "example_kernel = \<lparr> cma_objs = [0x1000 \<mapsto> \<lparr> migratetype = 4, pool = 0x2000 \<rparr>],
     pool_objs = [0x2000 \<mapsto> example_pool], mm = (), trace = [] \<rparr>"

definition example_after_one :: "unit kernel" where
  "example_after_one = example_kernel\<lparr> pool_objs := [0x2000 \<mapsto> example_pool_one],
     trace := [Mutex_lock, Alloc_contig_range 0x80000 0x80001 4, Mutex_unlock] \<rparr>"

definition example_after_two :: "unit kernel" where
  "example_after_two = example_kernel\<lparr> pool_objs := [0x2000 \<mapsto> example_pool_two],
     trace := [Mutex_lock, Alloc_contig_range 0x80000 0x80002 4, Mutex_unlock] \<rparr>"

definition example_none :: "unit kernel" where
  "example_none = example_kernel\<lparr> cma_objs := [0x1000 \<mapsto> \<lparr> migratetype = 0, pool = 0x2000 \<rparr>] \<rparr>"

definition example_none_after :: "unit kernel" where
  "example_none_after = example_none\<lparr> pool_objs := [0x2000 \<mapsto> example_pool_one],
     trace := [Mutex_lock, Mutex_unlock] \<rparr>"

text \<open>
  The kernel before any context exists; a page allocator whose pages all lie in the
  movable zone, in pageblocks tagged 2; one whose pageblocks from frame \<^verbatim>\<open>0x80800\<close> on
  carry another tag than the ones before; and the state \<^verbatim>\<open>cma_create\<close> leaves behind
  for a region of \<open>n\<close> pages at \<^verbatim>\<open>0x80000000\<close>.
\<close>

definition example_boot :: "unit kernel" where
  "example_boot = \<lparr> cma_objs = Map.empty, pool_objs = Map.empty, mm = (), trace = [] \<rparr>"

definition example_movable :: "unit extern" where
  "example_movable = example_extern\<lparr> page_zonenum := (\<lambda>m pfn. 2),
     get_pageblock_migratetype := (\<lambda>m pfn. 2) \<rparr>"

definition example_mixed :: "unit extern" where
  "example_mixed = example_extern\<lparr> get_pageblock_migratetype :=
     (\<lambda>m pfn. if pfn < 0x80800 then 4 else 2) \<rparr>"

definition example_created :: "cint \<Rightarrow> nat \<Rightarrow> unit kernel" where
  "example_created mt n = \<lparr> cma_objs = [0x1000 \<mapsto> \<lparr> migratetype = mt, pool = 0x2000 \<rparr>],
     pool_objs = [0x2000 \<mapsto> \<lparr> pool_order = 12, chunk_start = 0x80000000,
       chunk_bits = replicate n False \<rparr>],
     mm = (), trace = [Kmalloc 0x1000, Gen_pool_create 0x2000] \<rparr>"


text \<open>
  A context over 4096 pages at physical address 0, as \<^verbatim>\<open>cma_create\<close> leaves it, and
  the state after a call of \<^verbatim>\<open>cm_alloc\<close> for one page on it; and the context over
  movable memory after one page has been handed out.
\<close>

definition example_low_pool :: gen_pool where
  "example_low_pool = \<lparr> pool_order = 12, chunk_start = 0, chunk_bits = replicate 4096 False \<rparr>"

definition example_low_taken :: gen_pool where
  "example_low_taken = example_low_pool\<lparr> chunk_bits := set_range (replicate 4096 False) 0 1 True \<rparr>"

definition example_low :: "unit kernel" where
  "example_low = \<lparr> cma_objs = [0x1000 \<mapsto> \<lparr> migratetype = 4, pool = 0x2000 \<rparr>],
     pool_objs = [0x2000 \<mapsto> example_low_pool], mm = (),
     trace = [Kmalloc 0x1000, Gen_pool_create 0x2000] \<rparr>"

definition example_low_leaked :: "unit kernel" where
  "example_low_leaked = example_low\<lparr> pool_objs := [0x2000 \<mapsto> example_low_taken],
     trace := [Kmalloc 0x1000, Gen_pool_create 0x2000, Mutex_lock, Mutex_unlock] \<rparr>"

definition example_movable_pool :: gen_pool where
  "example_movable_pool = \<lparr> pool_order = 12, chunk_start = 0x80000000,
     chunk_bits = set_range (replicate 4096 False) 0 1 True \<rparr>"

definition example_movable_taken :: "unit kernel" where
  "example_movable_taken = (example_created 2 4096)\<lparr> pool_objs := [0x2000 \<mapsto> example_movable_pool],
     trace := [Kmalloc 0x1000, Gen_pool_create 0x2000, Mutex_lock,
       Alloc_contig_range 0x80000 0x80001 2, Mutex_unlock] \<rparr>"


section \<open>Properties of the region registrar\<close>

declare give_back_loop.simps [simp del] give_back_queued_loop.simps [simp del]

lemma granule_mask:
  "push_bit PAGE_SHIFT (MAX_ORDER_NR_PAGES cfg) - 1 = (mask (MAX_ORDER cfg - 1 + PAGE_SHIFT) :: ulong)"
  by (simp add: MAX_ORDER_NR_PAGES_def push_bit_eq_mult mask_eq_exp_minus_1 power_add mult.commute)

lemma misaligned_iff:
  "((start OR sz) AND (push_bit PAGE_SHIFT (MAX_ORDER_NR_PAGES cfg) - 1) \<noteq> 0) \<longleftrightarrow>
   \<not> (granule cfg dvd unat start \<and> granule cfg dvd unat sz)"
  by (simp add: granule_mask granule_def and_mask_dvd_nat bit.conj_disj_distrib2 or_eq_0_iff)

lemma wraps_iff: "(start + sz < start) \<longleftrightarrow> 2 ^ 32 \<le> unat start + unat (sz :: ulong)"
  using no_plus_overflow_unat_size [of start sz] by (simp add: word_size not_le [symmetric] not_less)

lemma give_back_loop_frame:
  "cma_grabbed (give_back_loop cfg p i s) = cma_grabbed s \<and>
   cma_grabbed_count (give_back_loop cfg p i s) = cma_grabbed_count s \<and>
   cma_give_back (give_back_loop cfg p i s) = cma_give_back s"
proof (induction cfg p i s rule: give_back_loop.induct)
  case (1 cfg p i s)
  show ?case
  proof (cases "i - 1 = 0")
    case True
    then show ?thesis by (subst (1 2 3) give_back_loop.simps) simp
  next
    case False
    with 1 show ?thesis by (subst (1 2 3) give_back_loop.simps) (simp add: Let_def)
  qed
qed

lemma uu_cma_give_back_frame [simp]:
  "cma_grabbed (uu_cma_give_back cfg a b s) = cma_grabbed s"
  "cma_grabbed_count (uu_cma_give_back cfg a b s) = cma_grabbed_count s"
  "cma_give_back (uu_cma_give_back cfg a b s) = cma_give_back s"
  by (simp_all add: uu_cma_give_back_def give_back_loop_frame)

lemma replay_frame [simp]:
  "cma_grabbed (replay cfg q s) = cma_grabbed s"
  "cma_grabbed_count (replay cfg q s) = cma_grabbed_count s"
  "cma_give_back (replay cfg q s) = cma_give_back s"
  by (induction q arbitrary: s; simp add: replay_def split: prod.splits)+

lemma give_back_queued_loop_replay:
  "r + unat i \<le> length (cma_grabbed s) \<Longrightarrow>
   give_back_queued_loop cfg r i s = replay cfg (take (unat i) (drop r (cma_grabbed s))) s"
proof (induction cfg r i s rule: give_back_queued_loop.induct)
  case (1 cfg r i s)
  show ?case
  proof (cases "i = 0")
    case True
    then show ?thesis by (subst give_back_queued_loop.simps) (simp add: replay_def)
  next
    case False
    then have i: "unat i = Suc (unat (i - 1))"
      by (simp add: unat_minus_one unat_gt_0)
    with "1.prems" have r: "r < length (cma_grabbed s)" by simp
    let ?s' = "uu_cma_give_back cfg (fst (cma_grabbed s ! r)) (snd (cma_grabbed s ! r)) s"
    have "give_back_queued_loop cfg r i s = give_back_queued_loop cfg (r + 1) (i - 1) ?s'"
      using False by (subst give_back_queued_loop.simps) simp
    also have "\<dots> = replay cfg (take (unat (i - 1)) (drop (r + 1) (cma_grabbed ?s'))) ?s'"
      using False "1.prems" i by (intro "1.IH") simp_all
    also have "\<dots> = replay cfg (take (unat i) (drop r (cma_grabbed s))) s"
      using r by (simp add: i replay_def Cons_nth_drop_Suc [symmetric] case_prod_beta)
    finally show ?thesis .
  qed
qed

lemma cma_give_back_queued_replay:
  "boot_ok s \<Longrightarrow>
   cma_give_back_queued cfg s = replay cfg (pending s) (s\<lparr> cma_give_back := Give_back \<rparr>)"
  by (simp add: cma_give_back_queued_def give_back_queued_loop_replay boot_ok_def pending_def)

lemma queue_accept:
  assumes "boot_ok s" "uu_cma_queue_give_back start sz s = (Inr (), s')"
  shows "pending s' = pending s @ [(start, sz)] \<and> freed_pageblocks s' = freed_pageblocks s \<and>
     totalram_pages s' = totalram_pages s \<and> cma_give_back s' = cma_give_back s \<and> boot_ok s'"
proof -
  from assms(2) have ne: "cma_grabbed_count s \<noteq> 8"
    and s': "s' = s\<lparr> cma_grabbed := (cma_grabbed s)[unat (cma_grabbed_count s) := (start, sz)],
                       cma_grabbed_count := cma_grabbed_count s + 1 \<rparr>"
    by (auto simp: uu_cma_queue_give_back_def split: if_splits)
  from assms(1) ne have lt: "unat (cma_grabbed_count s) < 8"
    by (simp add: boot_ok_def word_unat_eq_iff)
  then have u: "unat (cma_grabbed_count s + 1) = Suc (unat (cma_grabbed_count s))"
    by (simp add: unat_word_ariths)
  show ?thesis using assms(1) lt
    by (simp add: s' pending_def boot_ok_def u take_Suc_conv_app_nth)
qed

lemma pending_length: "boot_ok s \<Longrightarrow> length (pending s) = unat (cma_grabbed_count s)"
  by (simp add: pending_def boot_ok_def)

lemma cma_init_migratetype_valid:
  assumes "sz \<noteq> 0" "granule cfg dvd unat start" "granule cfg dvd unat sz"
    "unat start + unat sz < 2 ^ 32"
  shows "cma_init_migratetype cfg start sz s = call_cma_give_back cfg start sz s"
  using assms unfolding cma_init_migratetype_def misaligned_iff wraps_iff by simp

lemma cma_init_migratetype_cases:
  "cma_init_migratetype cfg start sz s = (Inl EINVAL, s) \<or>
   cma_init_migratetype cfg start sz s = (Inl EOVERFLOW, s) \<or>
   cma_init_migratetype cfg start sz s = call_cma_give_back cfg start sz s"
  by (simp add: cma_init_migratetype_def)

lemma give_back_queued_loop_ready:
  "cma_give_back (give_back_queued_loop cfg r i s) = cma_give_back s"
proof (induction cfg r i s rule: give_back_queued_loop.induct)
  case (1 cfg r i s)
  then show ?case by (subst give_back_queued_loop.simps) simp
qed

lemma boot_step_ready:
  "cma_give_back s = Give_back \<Longrightarrow> cma_give_back (boot_step cfg x s) = Give_back"
proof (cases x)
  case (Register start sz)
  then show "cma_give_back s = Give_back \<Longrightarrow> ?thesis"
    using cma_init_migratetype_cases [of cfg start sz s]
    by (auto simp: call_cma_give_back_def)
next
  case Initcall
  then show "cma_give_back s = Give_back \<Longrightarrow> ?thesis"
    by (simp add: cma_give_back_queued_def give_back_queued_loop_ready)
qed

lemma transitions_ready: "cma_give_back s = Give_back \<Longrightarrow> transitions cfg s xs = 0"
  by (induction xs arbitrary: s) (simp_all add: boot_step_ready)

lemma transitions_le_1: "transitions cfg s xs \<le> 1"
proof (induction xs arbitrary: s)
  case Nil
  show ?case by simp
next
  case (Cons x xs)
  show ?case
  proof (cases "cma_give_back (boot_step cfg x s) = Give_back")
    case True
    then show ?thesis by (simp add: transitions_ready)
  next
    case False
    then show ?thesis using Cons.IH [of "boot_step cfg x s"] by simp
  qed
qed

text \<open>
  The registrar's array bound holds at program start and after every step, so the
  hypothesis \<open>boot_ok\<close> of the following theorems covers every state the code reaches.
\<close>

lemma boot_ok_init: "boot_ok boot_init"
  by (simp add: boot_ok_def boot_init_def)

lemma boot_ok_step:
  assumes "boot_ok s"
  shows "boot_ok (boot_step cfg x s)"
proof (cases x)
  case (Register start sz)
  show ?thesis
  proof (cases "cma_give_back s")
    case Queue_give_back
    obtain r s' where q: "uu_cma_queue_give_back start sz s = (r, s')"
      by (cases "uu_cma_queue_give_back start sz s")
    have "boot_ok s'"
    proof (cases r)
      case (Inl e)
      with q have "s' = s" by (auto simp: uu_cma_queue_give_back_def split: if_splits)
      with assms show ?thesis by simp
    next
      case (Inr u)
      with q queue_accept [OF assms, of start sz s'] show ?thesis by simp
    qed
    with q Queue_give_back assms cma_init_migratetype_cases [of cfg start sz s]
    show ?thesis by (auto simp: Register call_cma_give_back_def)
  next
    case Give_back
    with assms cma_init_migratetype_cases [of cfg start sz s]
    show ?thesis by (auto simp: Register call_cma_give_back_def boot_ok_def)
  qed
next
  case Initcall
  with assms show ?thesis
    by (simp add: cma_give_back_queued_replay) (simp add: boot_ok_def)
qed

text \<open>
  Claim C5.  The registrar has two phases, told apart by the pointer \<^verbatim>\<open>cma_give_back\<close>.
  While it points at the queueing function, an accepted registration only appends the
  region to the pending queue and marks nothing.  The initcall switches the pointer and
  replays the pending regions through \<^verbatim>\<open>__cma_give_back\<close>, oldest first.  Once the
  pointer is at the marking function, an accepted registration is exactly one application
  of \<^verbatim>\<open>__cma_give_back\<close> and leaves the queue alone; no step moves the pointer back,
  and along any run of registrations and initcalls the pointer changes at most once.
\<close>

theorem registrar_two_phase:
  assumes "boot_ok s"
  shows "(cma_give_back s = Queue_give_back \<and> cma_init_migratetype cfg start sz s = (Inr (), s') \<longrightarrow>
            pending s' = pending s @ [(start, sz)] \<and> cma_give_back s' = Queue_give_back \<and>
            freed_pageblocks s' = freed_pageblocks s \<and> totalram_pages s' = totalram_pages s) \<and>
         cma_give_back_queued cfg s = replay cfg (pending s) (s\<lparr> cma_give_back := Give_back \<rparr>) \<and>
         cma_give_back (cma_give_back_queued cfg s) = Give_back \<and>
         (cma_give_back s = Give_back \<and> cma_init_migratetype cfg start sz s = (Inr (), s') \<longrightarrow>
            s' = replay cfg [(start, sz)] s \<and> pending s' = pending s) \<and>
         (cma_give_back s = Give_back \<longrightarrow> cma_give_back (boot_step cfg x s) = Give_back) \<and>
         transitions cfg s xs \<le> 1"
proof (intro conjI impI)
  assume a: "cma_give_back s = Queue_give_back \<and> cma_init_migratetype cfg start sz s = (Inr (), s')"
  then have "uu_cma_queue_give_back start sz s = (Inr (), s')"
    using cma_init_migratetype_cases [of cfg start sz s] by (auto simp: call_cma_give_back_def)
  from queue_accept [OF assms this] a
  show "pending s' = pending s @ [(start, sz)]" "cma_give_back s' = Queue_give_back"
    "freed_pageblocks s' = freed_pageblocks s" "totalram_pages s' = totalram_pages s"
    by simp_all
next
  show "cma_give_back_queued cfg s = replay cfg (pending s) (s\<lparr> cma_give_back := Give_back \<rparr>)"
    by (rule cma_give_back_queued_replay [OF assms])
  then show "cma_give_back (cma_give_back_queued cfg s) = Give_back" by simp
next
  assume a: "cma_give_back s = Give_back \<and> cma_init_migratetype cfg start sz s = (Inr (), s')"
  then have s': "s' = uu_cma_give_back cfg start sz s"
    using cma_init_migratetype_cases [of cfg start sz s] by (auto simp: call_cma_give_back_def)
  then show "s' = replay cfg [(start, sz)] s" by (simp add: replay_def)
  from s' show "pending s' = pending s" by (simp add: pending_def)
next
  assume "cma_give_back s = Give_back"
  then show "cma_give_back (boot_step cfg x s) = Give_back" by (rule boot_step_ready)
next
  show "transitions cfg s xs \<le> 1" by (rule transitions_le_1)
qed

lemma example_give_back:
  "uu_cma_give_back example_platform 0x80000000 0x400000 s =
     s\<lparr> freed_pageblocks := freed_pageblocks s @ [0x80000],
        totalram_pages := totalram_pages s + 1024 \<rparr>"
  by (simp add: uu_cma_give_back_def give_back_loop.simps [of _ _ 1] example_platform_def
      PAGE_SHIFT_def phys_to_pfn_def pageblock_nr_pages_def drop_bit_eq_div)

theorem registrar_two_phase_witness:
  "boot_ok boot_init \<and> cma_give_back boot_init = Queue_give_back \<and>
   cma_init_migratetype example_platform 0x80000000 0x400000 boot_init = (Inr (), example_queued) \<and>
   pending example_queued = pending boot_init @ [(0x80000000, 0x400000)] \<and>
   freed_pageblocks example_queued = freed_pageblocks boot_init \<and>
   boot_ok example_queued \<and>
   cma_give_back_queued example_platform example_queued =
     replay example_platform [(0x80000000, 0x400000)] (example_queued\<lparr> cma_give_back := Give_back \<rparr>) \<and>
   boot_ok example_ready \<and> cma_give_back example_ready = Give_back \<and>
   cma_init_migratetype example_platform 0x80000000 0x400000 example_ready =
     (Inr (), example_ready\<lparr> freed_pageblocks := [0x80000], totalram_pages := 1024 \<rparr>) \<and>
   pending (example_ready\<lparr> freed_pageblocks := [0x80000], totalram_pages := 1024 \<rparr>) = pending example_ready"
proof -
  have ok: "boot_ok boot_init" "boot_ok example_queued" "boot_ok example_ready"
    by (simp_all add: boot_ok_def boot_init_def example_queued_def example_ready_def)
  have q: "cma_give_back boot_init = Queue_give_back" "cma_give_back example_ready = Give_back"
    by (simp_all add: boot_init_def example_ready_def)
  have g: "granule example_platform dvd unat (0x80000000 :: ulong)"
    "granule example_platform dvd unat (0x400000 :: ulong)"
    by (simp_all add: granule_def example_platform_def PAGE_SHIFT_def)
  have al: "cma_init_migratetype example_platform 0x80000000 0x400000 s =
      call_cma_give_back example_platform 0x80000000 0x400000 s" for s
    using g by (simp add: cma_init_migratetype_valid)
  have r1: "cma_init_migratetype example_platform 0x80000000 0x400000 boot_init = (Inr (), example_queued)"
    by (simp add: al call_cma_give_back_def uu_cma_queue_give_back_def
        example_queued_def boot_init_def)
  have r2: "cma_init_migratetype example_platform 0x80000000 0x400000 example_ready =
     (Inr (), example_ready\<lparr> freed_pageblocks := [0x80000], totalram_pages := 1024 \<rparr>)"
    by (simp add: al call_cma_give_back_def example_give_back
        example_ready_def boot_init_def)
  have p: "pending example_queued = [(0x80000000, 0x400000)]" "pending boot_init = []"
    by (simp_all add: pending_def example_queued_def boot_init_def eval_nat_numeral)
  let ?r = "example_ready\<lparr> freed_pageblocks := [0x80000], totalram_pages := 1024 \<rparr>"
  note t1 = registrar_two_phase [OF ok(1), where cfg = example_platform and start = "0x80000000"
      and sz = "0x400000" and s' = example_queued and x = Initcall and xs = "[]"]
  note t2 = registrar_two_phase [OF ok(2), where cfg = example_platform and start = "0x80000000"
      and sz = "0x400000" and s' = example_queued and x = Initcall and xs = "[]"]
  note t3 = registrar_two_phase [OF ok(3), where cfg = example_platform and start = "0x80000000"
      and sz = "0x400000" and s' = ?r and x = Initcall and xs = "[]"]
  have c1: "pending example_queued = pending boot_init @ [(0x80000000, 0x400000)] \<and>
      freed_pageblocks example_queued = freed_pageblocks boot_init"
    using t1 q(1) r1 by blast
  have c2: "cma_give_back_queued example_platform example_queued =
     replay example_platform [(0x80000000, 0x400000)] (example_queued\<lparr> cma_give_back := Give_back \<rparr>)"
    using t2 p(1) by simp
  have c3: "pending ?r = pending example_ready"
    using t3 q(2) r2 by blast
  show ?thesis
    using ok q r1 r2 c1 c2 c3 by blast
qed

text \<open>
  Claim C7.  The pending queue holds at most eight regions.  Before the initcall, a valid
  registration that finds eight regions queued returns \<^verbatim>\<open>-ENOSPC\<close> and changes
  nothing; one that finds fewer is accepted and appended.
\<close>

theorem pending_queue_capacity:
  assumes "boot_ok s" "cma_give_back s = Queue_give_back"
    and "sz \<noteq> 0" "granule cfg dvd unat start" "granule cfg dvd unat sz"
    and "unat start + unat sz < 2 ^ 32"
  shows "length (pending s) \<le> 8 \<and>
    (length (pending s) = 8 \<longrightarrow> cma_init_migratetype cfg start sz s = (Inl ENOSPC, s)) \<and>
    (length (pending s) < 8 \<longrightarrow>
       (\<exists>s'. cma_init_migratetype cfg start sz s = (Inr (), s') \<and>
             pending s' = pending s @ [(start, sz)] \<and> boot_ok s'))"
proof -
  have call: "cma_init_migratetype cfg start sz s = uu_cma_queue_give_back start sz s"
    using assms by (simp add: cma_init_migratetype_valid call_cma_give_back_def)
  have len: "length (pending s) = unat (cma_grabbed_count s)"
    using assms(1) by (rule pending_length)
  have full: "cma_init_migratetype cfg start sz s = (Inl ENOSPC, s)" if "length (pending s) = 8"
    using that by (simp add: call len uu_cma_queue_give_back_def word_unat_eq_iff)
  have room: "\<exists>s'. cma_init_migratetype cfg start sz s = (Inr (), s') \<and>
             pending s' = pending s @ [(start, sz)] \<and> boot_ok s'" if "length (pending s) < 8"
  proof -
    from that have "cma_grabbed_count s \<noteq> 8" by (simp add: len word_unat_eq_iff)
    then obtain s' where s': "uu_cma_queue_give_back start sz s = (Inr (), s')"
      by (simp add: uu_cma_queue_give_back_def)
    with queue_accept [OF assms(1) s'] show ?thesis by (simp add: call)
  qed
  from assms(1) have "length (pending s) \<le> 8" by (simp add: len boot_ok_def)
  with full room show ?thesis by blast
qed

theorem pending_queue_capacity_witness:
  "boot_ok example_full \<and> length (pending example_full) = 8 \<and>
   cma_init_migratetype example_platform 0x80000000 0x400000 example_full = (Inl ENOSPC, example_full) \<and>
   boot_ok boot_init \<and> length (pending boot_init) < 8 \<and>
   (\<exists>s'. cma_init_migratetype example_platform 0x80000000 0x400000 boot_init = (Inr (), s') \<and>
      pending s' = pending boot_init @ [(0x80000000, 0x400000)] \<and> boot_ok s')"
proof -
  have ok: "boot_ok example_full" "boot_ok boot_init"
    by (simp_all add: boot_ok_def boot_init_def example_full_def)
  have q: "cma_give_back example_full = Queue_give_back" "cma_give_back boot_init = Queue_give_back"
    by (simp_all add: boot_init_def example_full_def)
  have g: "granule example_platform dvd unat (0x80000000 :: ulong)"
    "granule example_platform dvd unat (0x400000 :: ulong)"
    by (simp_all add: granule_def example_platform_def PAGE_SHIFT_def)
  have n: "(0x400000 :: ulong) \<noteq> 0" "unat (0x80000000 :: ulong) + unat (0x400000 :: ulong) < 2 ^ 32"
    by simp_all
  have l: "length (pending example_full) = 8" "length (pending boot_init) < 8"
    by (simp_all add: pending_def example_full_def boot_init_def)
  show ?thesis
    using pending_queue_capacity [OF ok(1) q(1) n(1) g n(2)]
      pending_queue_capacity [OF ok(2) q(2) n(1) g n(2)] ok l
    by simp
qed

text \<open>
  Claim C6.  \<^verbatim>\<open>cma_init_migratetype\<close> checks its arguments before anything else: a zero
  size, or a start or size that is not a multiple of the granule, gives \<^verbatim>\<open>-EINVAL\<close>;
  an argument pair that passes these and whose end wraps around the 32-bit address
  space gives \<^verbatim>\<open>-EOVERFLOW\<close>; in both cases the state is untouched.  Only the
  remaining inputs reach the call through \<^verbatim>\<open>cma_give_back\<close>.
\<close>

theorem cma_init_migratetype_validates:
  "(sz = 0 \<or> \<not> granule cfg dvd unat start \<or> \<not> granule cfg dvd unat sz
      \<longrightarrow> cma_init_migratetype cfg start sz s = (Inl EINVAL, s)) \<and>
   (sz \<noteq> 0 \<and> granule cfg dvd unat start \<and> granule cfg dvd unat sz \<and> 2 ^ 32 \<le> unat start + unat sz
      \<longrightarrow> cma_init_migratetype cfg start sz s = (Inl EOVERFLOW, s)) \<and>
   (sz \<noteq> 0 \<and> granule cfg dvd unat start \<and> granule cfg dvd unat sz \<and> unat start + unat sz < 2 ^ 32
      \<longrightarrow> cma_init_migratetype cfg start sz s = call_cma_give_back cfg start sz s)"
  unfolding cma_init_migratetype_def misaligned_iff wraps_iff by auto

theorem cma_init_migratetype_validates_witness:
  "cma_init_migratetype example_platform 0x80000000 0 boot_init = (Inl EINVAL, boot_init) \<and>
   cma_init_migratetype example_platform 0x80001000 0x400000 boot_init = (Inl EINVAL, boot_init) \<and>
   cma_init_migratetype example_platform 0xFFC00000 0x400000 boot_init = (Inl EOVERFLOW, boot_init) \<and>
   cma_init_migratetype example_platform 0x80000000 0x400000 boot_init =
     call_cma_give_back example_platform 0x80000000 0x400000 boot_init"
  using cma_init_migratetype_validates [of 0 example_platform "0x80000000" boot_init]
    cma_init_migratetype_validates [of "0x400000" example_platform "0x80001000" boot_init]
    cma_init_migratetype_validates [of "0x400000" example_platform "0xFFC00000" boot_init]
    cma_init_migratetype_validates [of "0x400000" example_platform "0x80000000" boot_init]
  by (simp add: granule_def example_platform_def PAGE_SHIFT_def)


section \<open>Properties of the Range Pool\<close>

lemma length_set_range [simp]: "length (set_range bits i n v) = length bits"
  by (simp add: set_range_def)

lemma nth_set_range:
  "j < length bits \<Longrightarrow> set_range bits i n v ! j = (if i \<le> j \<and> j < i + n then v else bits ! j)"
  by (simp add: set_range_def)

lemma range_free_iff:
  "range_free bits i n \<longleftrightarrow> i + n \<le> length bits \<and> (\<forall>j. i \<le> j \<and> j < i + n \<longrightarrow> \<not> bits ! j)"
proof (cases "i + n \<le> length bits")
  case True
  have "list_all (\<lambda>b. \<not> b) (take n (drop i bits)) \<longleftrightarrow> (\<forall>k<n. \<not> bits ! (i + k))"
    using True by (simp add: list_all_length)
  also have "\<dots> \<longleftrightarrow> (\<forall>j. i \<le> j \<and> j < i + n \<longrightarrow> \<not> bits ! j)"
  proof (intro iffI allI impI)
    fix j assume a: "\<forall>k<n. \<not> bits ! (i + k)" and j: "i \<le> j \<and> j < i + n"
    then have "\<not> bits ! (i + (j - i))" by (intro a [rule_format]) arith
    with j show "\<not> bits ! j" by simp
  next
    fix k assume "\<forall>j. i \<le> j \<and> j < i + n \<longrightarrow> \<not> bits ! j" "k < n"
    then show "\<not> bits ! (i + k)" by simp
  qed
  finally show ?thesis using True by (simp add: range_free_def)
next
  case False
  then show ?thesis by (simp add: range_free_def)
qed

lemma set_range_decomp:
  "i + n \<le> length bits \<Longrightarrow> set_range bits i n v = take i bits @ replicate n v @ drop (i + n) bits"
  by (rule nth_equalityI) (auto simp: nth_set_range nth_append)

lemma bits_decomp:
  "i + n \<le> length bits \<Longrightarrow> bits = take i bits @ take n (drop i bits) @ drop (i + n) bits"
  by (metis append_take_drop_id drop_drop add.commute)

lemma middle_all:
  assumes "i + n \<le> length bits" "\<forall>j. i \<le> j \<and> j < i + n \<longrightarrow> bits ! j = v"
  shows "take n (drop i bits) = replicate n v"
  using assms by (intro nth_equalityI) auto

lemma count_set_range_fresh:
  assumes "i + n \<le> length bits" "\<forall>j. i \<le> j \<and> j < i + n \<longrightarrow> bits ! j = (\<not> v)"
  shows "count_list (set_range bits i n v) v = count_list bits v + n"
proof -
  have m: "take n (drop i bits) = replicate n (\<not> v)" using assms by (rule middle_all)
  have "count_list bits v = count_list (take i bits) v + count_list (replicate n (\<not> v)) v
      + count_list (drop (i + n) bits) v"
    by (subst bits_decomp [OF assms(1)]) (simp add: m)
  moreover have "count_list (replicate n (\<not> v)) v = 0" by (simp add: count_list_0_iff)
  moreover have "count_list (replicate n v) v = n" by (induction n) simp_all
  ultimately show ?thesis by (simp add: set_range_decomp [OF assms(1)])
qed

lemma count_set_range_other:
  assumes "i + n \<le> length bits" "\<forall>j. i \<le> j \<and> j < i + n \<longrightarrow> bits ! j = v"
  shows "count_list (set_range bits i n (\<not> v)) v + n = count_list bits v"
proof -
  have m: "take n (drop i bits) = replicate n v" using assms by (rule middle_all)
  have "count_list bits v = count_list (take i bits) v + count_list (replicate n v) v
      + count_list (drop (i + n) bits) v"
    by (subst bits_decomp [OF assms(1)]) (simp add: m)
  moreover have "count_list (replicate n (\<not> v)) v = 0" by (simp add: count_list_0_iff)
  moreover have "count_list (replicate n v) v = n" by (induction n) simp_all
  ultimately show ?thesis by (simp add: set_range_decomp [OF assms(1)])
qed

lemma count_True_False: "count_list bits True + count_list bits False = length bits"
  by (induction bits) auto

lemma alloc_SomeD:
  assumes "gen_pool_alloc_aligned p sz ao = Some (a, p')"
  shows "\<exists>i. i < length (chunk_bits p) \<and> a = unit_addr p i \<and> 2 ^ ao dvd unat a \<and>
           range_free (chunk_bits p) i (units p sz) \<and>
           p' = p\<lparr> chunk_bits := set_range (chunk_bits p) i (units p sz) True \<rparr>"
proof -
  from assms obtain i where f: "find (\<lambda>i. 2 ^ ao dvd unat (unit_addr p i) \<and>
      range_free (chunk_bits p) i (units p sz)) [0..<length (chunk_bits p)] = Some i"
    and r: "a = unit_addr p i" "p' = p\<lparr> chunk_bits := set_range (chunk_bits p) i (units p sz) True \<rparr>"
    by (auto simp: gen_pool_alloc_aligned_def split: option.splits)
  from f have "i < length (chunk_bits p)" "2 ^ ao dvd unat (unit_addr p i)"
    "range_free (chunk_bits p) i (units p sz)"
    by (auto simp: find_Some_iff)
  with r show ?thesis by blast
qed

lemma unit_index:
  assumes "pool_wf p" "i < length (chunk_bits p)"
  shows "unat (unit_addr p i - chunk_start p) div 2 ^ pool_order p = i"
    and "unat (unit_addr p i) = unat (chunk_start p) + i * 2 ^ PAGE_SHIFT"
proof -
  from assms have o: "pool_order p = PAGE_SHIFT"
    and b: "unat (chunk_start p) + 2 ^ PAGE_SHIFT * length (chunk_bits p) \<le> 2 ^ 32"
    by (simp_all add: pool_wf_def)
  define k where "k = i * 2 ^ PAGE_SHIFT"
  from assms(2) have "k < 2 ^ PAGE_SHIFT * length (chunk_bits p)"
    by (simp add: k_def)
  with b have lt: "unat (chunk_start p) + k < 2 ^ 32" by linarith
  then have u: "unat (of_nat k :: ulong) = k"
    by (simp add: unat_of_nat)
  have ua: "unit_addr p i = chunk_start p + of_nat k"
    by (simp add: unit_addr_def o k_def)
  have "unat (unit_addr p i - chunk_start p) = k"
    by (simp add: ua u)
  then show "unat (unit_addr p i - chunk_start p) div 2 ^ pool_order p = i"
    by (simp add: o k_def)
  have "unat (chunk_start p + of_nat k) = unat (chunk_start p) + unat (of_nat k :: ulong)"
    using lt u by (intro unat_add_lem [THEN iffD1]) simp
  then show "unat (unit_addr p i) = unat (chunk_start p) + i * 2 ^ PAGE_SHIFT"
    by (simp add: ua u) (simp add: k_def)
qed

lemma free_after_alloc:
  assumes "pool_wf p" "gen_pool_alloc_aligned p sz ao = Some (a, p')"
  shows "gen_pool_free p' a sz = p"
proof -
  from alloc_SomeD [OF assms(2)] obtain i where i: "i < length (chunk_bits p)"
    and a: "a = unit_addr p i" and f: "range_free (chunk_bits p) i (units p sz)"
    and p': "p' = p\<lparr> chunk_bits := set_range (chunk_bits p) i (units p sz) True \<rparr>"
    by blast
  have idx: "unat (a - chunk_start p) div 2 ^ pool_order p = i"
    using unit_index(1) [OF assms(1) i] a by simp
  have "set_range (set_range (chunk_bits p) i (units p sz) True) i (units p sz) False = chunk_bits p"
    using f by (intro nth_equalityI) (auto simp: nth_set_range range_free_iff)
  then show ?thesis
    by (simp add: gen_pool_free_def p' units_def idx)
qed

section \<open>Properties of contexts and of allocation\<close>

lemma emit_simps [simp]:
  "pool_objs (emit e st) = pool_objs st" "cma_objs (emit e st) = cma_objs st"
  "mm (emit e st) = mm st" "trace (emit e st) = trace st @ [e]"
  by (simp_all add: emit_def)

lemma cm_alloc_live:
  assumes c: "cma_objs st cma = Some c" and p: "pool_objs st (pool c) = Some p"
    and nz: "cma \<noteq> 0" "push_bit PAGE_SHIFT count \<noteq> (0 :: ulong)"
  shows "cm_alloc ext cma count ord st =
     (let (start, p') = alloc_result p
            (gen_pool_alloc_aligned p (push_bit PAGE_SHIFT count) (unat (ord + 12)));
          st2 = (emit Mutex_lock st)\<lparr> pool_objs := (pool_objs st)(pool c \<mapsto> p') \<rparr>
      in if start = 0 then Some (None, emit Mutex_unlock st2)
         else if migratetype c \<noteq> 0 then
           let pfn = phys_to_pfn start;
               pfn_end = pfn + drop_bit PAGE_SHIFT (push_bit PAGE_SHIFT count);
               (ret, m') = alloc_contig_range ext pfn pfn_end (migratetype c) (mm st);
               st3 = emit (Alloc_contig_range pfn pfn_end (migratetype c)) (st2\<lparr> mm := m' \<rparr>)
           in if ret \<noteq> 0 then
                Some (None, emit Mutex_unlock
                  (st3\<lparr> pool_objs := (pool_objs st)(pool c \<mapsto> gen_pool_free p' start (push_bit PAGE_SHIFT count)) \<rparr>))
              else Some (Some start, emit Mutex_unlock st3)
         else Some (Some start, emit Mutex_unlock st2))"
  using assms
  by (auto simp: cm_alloc_def emit_def Let_def split: option.splits prod.splits)

lemma cm_alloc_dead:
  assumes "cma = 0 \<or> push_bit PAGE_SHIFT count = (0 :: ulong)"
  shows "cm_alloc ext cma count ord st = Some (None, st)"
  using assms by (cases "cma = 0") (simp_all add: cm_alloc_def)

lemma take_nonzero:
  assumes "pool_wf p" "chunk_start p \<noteq> 0" "gen_pool_alloc_aligned p sz ao = Some (a, p')"
  shows "a \<noteq> 0"
proof -
  from alloc_SomeD [OF assms(3)] obtain i where i: "i < length (chunk_bits p)"
    and a: "a = unit_addr p i" by blast
  from assms(2) have "0 < unat (chunk_start p)" by (simp add: unat_gt_0)
  with unit_index(2) [OF assms(1) i] a have "0 < unat a" by simp
  then show ?thesis by (simp add: unat_gt_0)
qed

text \<open>
  The three ways a call of \<^verbatim>\<open>cm_alloc\<close> on a live context ends: \<^verbatim>\<open>NULL\<close> with the
  pools as before; \<^verbatim>\<open>NULL\<close> with a range at address 0 left taken; or a range at a
  non-zero address.
\<close>

lemma cm_alloc_cases:
  assumes c: "cma_objs st cma = Some c" and p: "pool_objs st (pool c) = Some p"
    and wf: "pool_wf p"
  shows "(\<exists>st'. cm_alloc ext cma count ord st = Some (None, st') \<and>
            pool_objs st' = pool_objs st \<and> cma_objs st' = cma_objs st) \<or>
         (\<exists>p' st'. cm_alloc ext cma count ord st = Some (None, st') \<and>
            gen_pool_alloc_aligned p (push_bit PAGE_SHIFT count) (unat (ord + 12)) = Some (0, p') \<and>
            pool_objs st' = (pool_objs st)(pool c \<mapsto> p') \<and> cma_objs st' = cma_objs st) \<or>
         (\<exists>a p' st'. cm_alloc ext cma count ord st = Some (Some a, st') \<and> a \<noteq> 0 \<and>
            push_bit PAGE_SHIFT count \<noteq> (0 :: ulong) \<and>
            gen_pool_alloc_aligned p (push_bit PAGE_SHIFT count) (unat (ord + 12)) = Some (a, p') \<and>
            pool_objs st' = (pool_objs st)(pool c \<mapsto> p') \<and> cma_objs st' = cma_objs st)"
proof (cases "cma = 0 \<or> push_bit PAGE_SHIFT count = (0 :: ulong)")
  case True
  then show ?thesis by (simp add: cm_alloc_dead)
next
  case False
  then have nz: "cma \<noteq> 0" "push_bit PAGE_SHIFT count \<noteq> (0 :: ulong)" by simp_all
  note live = cm_alloc_live [OF c p nz, of ext ord]
  have same: "(pool_objs st)(pool c \<mapsto> p) = pool_objs st"
    using p by (rule map_upd_triv)
  show ?thesis
  proof (cases "gen_pool_alloc_aligned p (push_bit PAGE_SHIFT count) (unat (ord + 12))")
    case None
    then show ?thesis by (simp add: live alloc_result_def same)
  next
    case (Some q)
    obtain a p' where q: "q = (a, p')" by (cases q)
    from Some q wf have giveback: "gen_pool_free p' a (push_bit PAGE_SHIFT count) = p"
      by (simp add: free_after_alloc)
    show ?thesis
      using Some q nz
      by (auto simp: live alloc_result_def Let_def giveback same split: prod.splits)
  qed
qed

lemma cm_alloc_failure_restores_pool:
  assumes c: "cma_objs st cma = Some c" and p: "pool_objs st (pool c) = Some p"
    and wf: "pool_wf p" and base: "chunk_start p \<noteq> 0"
  shows "\<exists>r st'. cm_alloc ext cma count ord st = Some (r, st') \<and>
     (r = None \<longrightarrow> pool_objs st' = pool_objs st \<and> cma_objs st' = cma_objs st)"
  using cm_alloc_cases [OF c p wf, of ext count ord] take_nonzero [OF wf base]
  by fastforce

lemma cm_free_live:
  assumes c: "cma_objs st cma = Some c" and p: "pool_objs st (pool c) = Some p"
    and nz: "cma \<noteq> 0"
  shows "\<exists>st'. cm_free ext cma (Some phys) count st = Some st' \<and>
           pool_objs st' = (pool_objs st)(pool c \<mapsto> gen_pool_free p phys (push_bit PAGE_SHIFT count)) \<and>
           cma_objs st' = cma_objs st"
  using assms by (simp add: cm_free_def Let_def)


section \<open>Creation of a context\<close>

lemma page_mask: "PAGE_SIZE - 1 = (mask PAGE_SHIFT :: ulong)"
  by (simp add: PAGE_SIZE_def mask_eq_exp_minus_1)

lemma page_misaligned_iff:
  "((start OR sz) AND (PAGE_SIZE - 1) \<noteq> 0) \<longleftrightarrow>
   \<not> (2 ^ PAGE_SHIFT dvd unat start \<and> 2 ^ PAGE_SHIFT dvd unat sz)"
  by (simp add: page_mask and_mask_dvd_nat bit.conj_disj_distrib2 or_eq_0_iff)

lemma cma_create_success:
  assumes "cma_create cfg ext start sz st0 = (Inr cma, st)"
  shows "cma \<noteq> 0 \<and> sz \<noteq> 0 \<and> 2 ^ PAGE_SHIFT dvd unat start \<and> 2 ^ PAGE_SHIFT dvd unat sz \<and>
     unat start + unat sz < 2 ^ 32 \<and>
     (\<exists>mt pl. uu_cma_check_range cfg ext (mm st0) start sz = Inr mt \<and>
        cma_objs st cma = Some \<lparr> migratetype = mt, pool = pl \<rparr> \<and>
        pool_objs st pl = Some \<lparr> pool_order = PAGE_SHIFT, chunk_start = start,
          chunk_bits = replicate (unat sz div 2 ^ PAGE_SHIFT) False \<rparr>)"
proof -
  from assms have sz: "sz \<noteq> 0"
    and al: "\<not> ((start OR sz) AND (PAGE_SIZE - 1) \<noteq> 0)"
    and nw: "\<not> start + sz < start"
    by (auto simp: cma_create_def split: if_splits)
  from al have al': "2 ^ PAGE_SHIFT dvd unat start" "2 ^ PAGE_SHIFT dvd unat sz"
    unfolding page_misaligned_iff by simp_all
  from nw have nw': "unat start + unat sz < 2 ^ 32"
    unfolding wraps_iff by simp
  from assms sz al nw obtain mt where mt: "uu_cma_check_range cfg ext (mm st0) start sz = Inr mt"
    by (auto simp: cma_create_def split: sum.splits)
  obtain cm st1 where k: "do_kmalloc ext st0 = (cm, st1)" by (cases "do_kmalloc ext st0")
  obtain pl st2 where g: "do_gen_pool_create ext PAGE_SHIFT st1 = (pl, st2)"
    by (cases "do_gen_pool_create ext PAGE_SHIFT st1")
  obtain r st3 where a: "do_gen_pool_add ext pl start sz st2 = (r, st3)"
    by (cases "do_gen_pool_add ext pl start sz st2")
  from assms sz al nw mt k g a have res: "cm \<noteq> 0" "pl \<noteq> 0" "r = Inr ()" "cma = cm"
    "st = st3\<lparr> cma_objs := (cma_objs st3)(cm \<mapsto> \<lparr> migratetype = mt, pool = pl \<rparr>) \<rparr>"
    by (auto simp: cma_create_def split: if_splits sum.splits)
  from g res(2) have p2: "pool_objs st2 pl = Some (gen_pool_create PAGE_SHIFT)"
    by (auto simp: do_gen_pool_create_def Let_def split: prod.splits)
  from a res(3) p2 have p3: "pool_objs st3 pl = Some (gen_pool_add (gen_pool_create PAGE_SHIFT) start sz)"
    by (auto simp: do_gen_pool_add_def Let_def split: prod.splits if_splits)
  have "pool_objs st pl = Some \<lparr> pool_order = PAGE_SHIFT, chunk_start = start,
          chunk_bits = replicate (unat sz div 2 ^ PAGE_SHIFT) False \<rparr>"
    by (simp add: res(5) p3 gen_pool_add_def gen_pool_create_def)
  moreover have "cma_objs st cma = Some \<lparr> migratetype = mt, pool = pl \<rparr>"
    by (simp add: res(4,5))
  ultimately show ?thesis using res(1,4) sz al' nw' mt by blast
qed

declare check_zone_loop.simps [simp del] check_block_loop.simps [simp del]

lemma check_zone_loop_all:
  assumes "\<And>q. pfn_valid ext m q" "\<And>q. page_zone ext m q = zone"
  shows "check_zone_loop ext m zone pfn count = Inr (pfn + count)"
  using assms
proof (induction ext m zone pfn count rule: check_zone_loop.induct)
  case (1 ext m zone pfn count)
  show ?case
  proof (cases "count - 1 = 0")
    case True
    then have "count = 1" by simp
    then show ?thesis by (subst check_zone_loop.simps) simp
  next
    case False
    have "check_zone_loop ext m zone pfn count = check_zone_loop ext m zone (pfn + 1) (count - 1)"
      using False "1.prems" by (subst check_zone_loop.simps) (simp add: Let_def)
    also have "\<dots> = Inr (pfn + 1 + (count - 1))"
      using False "1.prems" by (intro "1.IH") simp_all
    finally show ?thesis by simp
  qed
qed

lemma example_externs [simp]:
  "pfn_valid example_extern m q" "page_zone example_extern m q = 0"
  "page_zonenum example_extern m q = 0" "get_pageblock_migratetype example_extern m q = 4"
  "kmalloc example_extern m = (0x1000, m)" "pool_kmalloc example_extern m = (0x2000, m)"
  "chunk_kmalloc example_extern m = (True, m)"
  "pfn_valid example_movable m q" "page_zone example_movable m q = 0"
  "page_zonenum example_movable m q = 2" "get_pageblock_migratetype example_movable m q = 2"
  "kmalloc example_movable m = (0x1000, m)" "pool_kmalloc example_movable m = (0x2000, m)"
  "chunk_kmalloc example_movable m = (True, m)"
  "alloc_contig_range example_movable a b mt m = (0, m)"
  "pfn_valid example_mixed m q" "page_zone example_mixed m q = 0"
  "page_zonenum example_mixed m q = 0"
  "get_pageblock_migratetype example_mixed m q = (if q < 0x80800 then 4 else 2)"
  "kmalloc example_mixed m = (0x1000, m)" "pool_kmalloc example_mixed m = (0x2000, m)"
  "chunk_kmalloc example_mixed m = (True, m)"
  by (simp_all add: example_extern_def example_movable_def example_mixed_def)

lemma example_platforms [simp]:
  "ZONE_MOVABLE example_platform = 2" "MIGRATE_MOVABLE example_platform = 2"
  "MIGRATE_CMA example_platform = 4" "pageblock_nr_pages example_platform = 0x400"
  by (simp_all add: example_platform_def pageblock_nr_pages_def)

lemma example_check_movable:
  "uu_cma_check_range example_platform example_movable () 0x80000000 0x1000000 = Inr 2"
proof -
  have z: "check_zone_loop example_movable () 0 0x80000 0x1000 = Inr (0x80000 + 0x1000)"
    by (rule check_zone_loop_all) simp_all
  have b: "check_block_loop example_platform example_movable () 2 0x80000 1 = Inr ()"
    by (subst check_block_loop.simps) simp
  show ?thesis
    using z b
    by (simp add: uu_cma_check_range_def phys_to_pfn_def PAGE_SHIFT_def drop_bit_eq_div ALIGN_def)
qed

lemma example_check_mixed:
  "uu_cma_check_range example_platform example_mixed () 0x80000000 0x2000000 = Inr 4"
proof -
  have z: "check_zone_loop example_mixed () 0 0x80000 0x2000 = Inr (0x80000 + 0x2000)"
    by (rule check_zone_loop_all) simp_all
  have b: "check_block_loop example_platform example_mixed () 4 0x80000 2 = Inr ()"
    by (subst check_block_loop.simps, simp, subst check_block_loop.simps, simp)
  show ?thesis
    using z b
    by (simp add: uu_cma_check_range_def phys_to_pfn_def PAGE_SHIFT_def drop_bit_eq_div ALIGN_def)
qed

lemma example_check_low:
  "uu_cma_check_range example_platform example_extern () 0 0x1000000 = Inr 4"
proof -
  have z: "check_zone_loop example_extern () 0 0 0x1000 = Inr (0 + 0x1000)"
    by (rule check_zone_loop_all) simp_all
  have b: "check_block_loop example_platform example_extern () 4 0 1 = Inr ()"
    by (subst check_block_loop.simps) simp
  show ?thesis
    using z b
    by (simp add: uu_cma_check_range_def phys_to_pfn_def PAGE_SHIFT_def drop_bit_eq_div ALIGN_def)
qed

lemma example_regions:
  "\<not> (0x80000000 OR 0x1000000) AND (PAGE_SIZE - 1) \<noteq> (0 :: ulong)"
  "\<not> (0x80000000 OR 0x2000000) AND (PAGE_SIZE - 1) \<noteq> (0 :: ulong)"
  "\<not> (0 OR 0x1000000) AND (PAGE_SIZE - 1) \<noteq> (0 :: ulong)"
  unfolding page_misaligned_iff by (simp_all add: PAGE_SHIFT_def)

lemma example_creates:
  "cma_create example_platform example_movable 0x80000000 0x1000000 example_boot
     = (Inr 0x1000, example_created 2 4096)"
  "cma_create example_platform example_mixed 0x80000000 0x2000000 example_boot
     = (Inr 0x1000, example_created 4 8192)"
  "cma_create example_platform example_extern 0 0x1000000 example_boot
     = (Inr 0x1000, example_low)"
  using example_regions
  by (simp_all add: cma_create_def example_boot_def example_check_movable example_check_mixed
      example_check_low do_kmalloc_def do_gen_pool_create_def do_gen_pool_add_def
      gen_pool_create_def gen_pool_add_def example_created_def example_low_def
      example_low_pool_def PAGE_SHIFT_def)

lemma alloc_first:
  assumes "0 < length (chunk_bits p)" "2 ^ ao dvd unat (chunk_start p)"
    "range_free (chunk_bits p) 0 (units p sz)"
  shows "gen_pool_alloc_aligned p sz ao =
     Some (chunk_start p, p\<lparr> chunk_bits := set_range (chunk_bits p) 0 (units p sz) True \<rparr>)"
proof -
  have "[0..<length (chunk_bits p)] = 0 # [Suc 0..<length (chunk_bits p)]"
    using assms(1) by (rule upt_conv_Cons)
  then show ?thesis
    using assms(2,3) by (simp add: gen_pool_alloc_aligned_def unit_addr_def)
qed

lemma check_zone_loop_InrD:
  assumes "check_zone_loop ext m zone pfn count = Inr r" "0 < k" "k < unat count"
  shows "pfn_valid ext m (pfn + of_nat k) \<and> page_zone ext m (pfn + of_nat k) = zone"
  using assms
proof (induction ext m zone pfn count arbitrary: k rule: check_zone_loop.induct)
  case (1 ext m zone pfn count)
  have c1: "count - 1 \<noteq> 0"
  proof
    assume "count - 1 = 0"
    then have "count = 1" by simp
    with "1.prems"(2,3) show False by simp
  qed
  from "1.prems"(1) c1 have ok: "pfn_valid ext m (pfn + 1)" "page_zone ext m (pfn + 1) = zone"
    and rec: "check_zone_loop ext m zone (pfn + 1) (count - 1) = Inr r"
    by (subst (asm) check_zone_loop.simps, simp add: Let_def split: if_splits)+
  show ?case
  proof (cases "k = 1")
    case True
    with ok show ?thesis by simp
  next
    case False
    with "1.prems"(2) have k: "0 < k - 1" by simp
    from "1.prems"(3) have "count \<noteq> 0" by (auto simp: unat_gt_0)
    then have "unat (count - 1) = unat count - 1" by (rule unat_minus_one)
    with "1.prems"(3) k have lt: "k - 1 < unat (count - 1)" by simp
    have "pfn_valid ext m (pfn + 1 + of_nat (k - 1)) \<and> page_zone ext m (pfn + 1 + of_nat (k - 1)) = zone"
      using c1 rec k lt ok by (intro "1.IH") simp_all
    moreover have "k = Suc (k - 1)" using "1.prems"(2) by simp
    then have "(of_nat k :: ulong) = 1 + of_nat (k - 1)" by (metis of_nat_Suc)
    then have "pfn + 1 + of_nat (k - 1) = pfn + of_nat k" by (simp add: add.assoc)
    ultimately show ?thesis by (simp only:)
  qed
qed

lemma cma_check_range_pages:
  assumes "uu_cma_check_range cfg ext m start sz = Inr mt" "k < unat (drop_bit PAGE_SHIFT sz)"
  shows "pfn_valid ext m (phys_to_pfn start + of_nat k) \<and>
         page_zone ext m (phys_to_pfn start + of_nat k) = page_zone ext m (phys_to_pfn start)"
proof (cases "k = 0")
  case True
  with assms(1) show ?thesis
    by (auto simp: uu_cma_check_range_def Let_def split: if_splits)
next
  case False
  from assms(1) obtain r where "check_zone_loop ext m (page_zone ext m (phys_to_pfn start))
      (phys_to_pfn start) (drop_bit PAGE_SHIFT sz) = Inr r"
    by (auto simp: uu_cma_check_range_def Let_def split: if_splits sum.splits)
  from check_zone_loop_InrD [OF this _ assms(2)] False show ?thesis by simp
qed

lemma cma_check_range_tag:
  assumes "uu_cma_check_range cfg ext m start sz = Inr mt"
  shows "mt = (if page_zonenum ext m (phys_to_pfn start) \<noteq> ZONE_MOVABLE cfg
               then MIGRATE_CMA cfg else MIGRATE_MOVABLE cfg)"
  using assms by (auto simp: uu_cma_check_range_def Let_def split: if_splits sum.splits)

lemma cma_create_scan_first:
  assumes "uu_cma_check_range cfg ext (mm st) start sz = Inl e"
  shows "\<exists>e'. cma_create cfg ext start sz st = (Inl e', st)"
  using assms by (simp add: cma_create_def)

lemma cma_create_failure_releases:
  assumes r: "cma_create cfg ext start sz st = (Inl e, st')"
    and fk: "fst (kmalloc ext (mm st)) \<notin> dom (cma_objs st)"
    and fp: "\<And>m. fst (pool_kmalloc ext m) \<notin> dom (pool_objs st)"
  shows "cma_objs st' = cma_objs st \<and> pool_objs st' = pool_objs st"
proof -
  obtain cm m1 where k: "kmalloc ext (mm st) = (cm, m1)" by (cases "kmalloc ext (mm st)")
  obtain pl m2 where g: "pool_kmalloc ext m1 = (pl, m2)" by (cases "pool_kmalloc ext m1")
  obtain ok m3 where a: "chunk_kmalloc ext m2 = (ok, m3)" by (cases "chunk_kmalloc ext m2")
  from fk k have c0: "cma_objs st cm = None" by (simp add: domIff)
  from fp [of m1] g have p0: "pool_objs st pl = None" by (simp add: domIff)
  have c1: "(cma_objs st)(cm := None) = cma_objs st" using c0 by (simp add: fun_eq_iff)
  have p1: "(pool_objs st)(pl := None) = pool_objs st" using p0 by (simp add: fun_eq_iff)
  have dk: "do_kmalloc ext st = (cm, st\<lparr> cma_objs := (if cm = 0 then cma_objs st
        else (cma_objs st)(cm \<mapsto> \<lparr> migratetype = 0, pool = 0 \<rparr>)),
      mm := m1, trace := trace st @ [Kmalloc cm] \<rparr>)"
    by (simp add: do_kmalloc_def k)
  show ?thesis
  proof (cases "sz = 0 \<or> (start OR sz) AND (PAGE_SIZE - 1) \<noteq> 0 \<or> start + sz < start")
    case True
    with r have "st' = st" by (auto simp: cma_create_def split: if_splits)
    then show ?thesis by simp
  next
    case False
    note guards = this
    show ?thesis
    proof (cases "uu_cma_check_range cfg ext (mm st) start sz")
      case (Inl e')
      with r guards have "st' = st" by (simp add: cma_create_def)
      then show ?thesis by simp
    next
      case (Inr mt)
      show ?thesis
      proof (cases "cm = 0")
        case True
        with r guards Inr have "st' = st\<lparr> mm := m1, trace := trace st @ [Kmalloc cm] \<rparr>"
          by (simp add: cma_create_def dk)
        then show ?thesis by simp
      next
        case cm: False
        let ?st1 = "st\<lparr> cma_objs := (cma_objs st)(cm \<mapsto> \<lparr> migratetype = 0, pool = 0 \<rparr>),
          mm := m1, trace := trace st @ [Kmalloc cm] \<rparr>"
        have dk': "do_kmalloc ext st = (cm, ?st1)" using cm by (simp add: dk)
        show ?thesis
        proof (cases "pl = 0")
          case True
          have "do_gen_pool_create ext PAGE_SHIFT ?st1 =
              (pl, ?st1\<lparr> mm := m2, trace := trace ?st1 @ [Gen_pool_create pl] \<rparr>)"
            using True by (simp add: do_gen_pool_create_def g)
          with r guards Inr cm True
          have "st' = kfree cm (?st1\<lparr> mm := m2, trace := trace ?st1 @ [Gen_pool_create pl] \<rparr>)"
            by (simp add: cma_create_def dk')
          then show ?thesis by (simp add: kfree_def c1)
        next
          case pl: False
          let ?st2 = "?st1\<lparr> pool_objs := (pool_objs st)(pl \<mapsto> gen_pool_create PAGE_SHIFT),
            mm := m2, trace := trace ?st1 @ [Gen_pool_create pl] \<rparr>"
          have dg: "do_gen_pool_create ext PAGE_SHIFT ?st1 = (pl, ?st2)"
            using pl by (simp add: do_gen_pool_create_def g)
          have ok: "\<not> ok"
          proof
            assume "ok"
            then have "fst (do_gen_pool_add ext pl start sz ?st2) = Inr ()"
              by (simp add: do_gen_pool_add_def a)
            with r guards Inr cm pl show False
              by (simp add: cma_create_def dk' dg split: prod.splits sum.splits)
          qed
          then have da: "do_gen_pool_add ext pl start sz ?st2 = (Inl ENOMEM, ?st2\<lparr> mm := m3 \<rparr>)"
            by (simp add: do_gen_pool_add_def a)
          with r guards Inr cm pl
          have "st' = kfree cm (do_gen_pool_destroy pl (?st2\<lparr> mm := m3 \<rparr>))"
            by (simp add: cma_create_def dk' dg)
          then show ?thesis by (simp add: kfree_def do_gen_pool_destroy_def c1 p1)
        qed
      qed
    qed
  qed
qed

section \<open>Example calls\<close>

lemma upt4: "[0..<4] = [0, 1, 2, 3]" by (simp add: upt_rec)

lemma example_shifts:
  "push_bit PAGE_SHIFT (0x100001 :: cint) = (0x1000 :: ulong)"
  "push_bit PAGE_SHIFT (1 :: cint) = (0x1000 :: ulong)"
  "push_bit PAGE_SHIFT (2 :: cint) = (0x2000 :: ulong)"
  "push_bit PAGE_SHIFT (5 :: cint) = (0x5000 :: ulong)"
  by (simp_all add: PAGE_SHIFT_def push_bit_eq_mult)

lemma example_takes:
  "gen_pool_alloc_aligned example_pool 0x1000 12 = Some (0x80000000, example_pool_one)"
  "gen_pool_alloc_aligned example_pool 0x1000 0 = Some (0x80000000, example_pool_one)"
  "gen_pool_alloc_aligned example_pool 0x2000 13 = Some (0x80000000, example_pool_two)"
  "gen_pool_alloc_aligned example_pool 0x5000 12 = None"
  by (simp_all add: gen_pool_alloc_aligned_def example_pool_def example_pool_one_def
      example_pool_two_def upt4 unit_addr_def units_def range_free_def set_range_def)

lemma example_objs:
  "cma_objs example_kernel 0x1000 = Some example_cma"
  "pool_objs example_kernel (pool example_cma) = Some example_pool"
  "pool_wf example_pool"
  by (simp_all add: example_kernel_def example_cma_def pool_wf_def example_pool_def PAGE_SHIFT_def)

lemma example_allocs:
  "cm_alloc example_extern 0x1000 0x100001 0 example_kernel = Some (Some 0x80000000, example_after_one)"
  "cm_alloc example_extern 0x1000 1 0xFFFFFFF4 example_kernel = Some (Some 0x80000000, example_after_one)"
  "cm_alloc example_extern 0x1000 1 0 example_kernel = Some (Some 0x80000000, example_after_one)"
  "cm_alloc example_extern 0x1000 2 1 example_kernel = Some (Some 0x80000000, example_after_two)"
  "cm_alloc example_extern 0x1000 1 0 example_none = Some (Some 0x80000000, example_none_after)"
  unfolding cm_alloc_def example_shifts
  by (simp_all add: example_kernel_def emit_def example_takes alloc_result_def
        example_extern_def example_after_one_def example_after_two_def example_none_def
        example_none_after_def phys_to_pfn_def PAGE_SHIFT_def drop_bit_eq_div)

lemma example_first_page:
  "gen_pool_alloc_aligned \<lparr> pool_order = 12, chunk_start = 0x80000000,
       chunk_bits = replicate 4096 False \<rparr> 0x1000 12 = Some (0x80000000, example_movable_pool)"
  "gen_pool_alloc_aligned example_low_pool 0x1000 12 = Some (0, example_low_taken)"
proof -
  let ?p = "\<lparr> pool_order = 12, chunk_start = 0x80000000, chunk_bits = replicate 4096 False \<rparr>"
  have u: "units ?p 0x1000 = 1" "units example_low_pool 0x1000 = 1"
    by (simp_all add: units_def example_low_pool_def)
  show "gen_pool_alloc_aligned ?p 0x1000 12 = Some (0x80000000, example_movable_pool)"
    using alloc_first [of ?p 12 "0x1000"]
    by (simp add: u range_free_def example_movable_pool_def)
  show "gen_pool_alloc_aligned example_low_pool 0x1000 12 = Some (0, example_low_taken)"
    using alloc_first [of example_low_pool 12 "0x1000"]
    by (simp add: u range_free_def) (simp add: example_low_pool_def example_low_taken_def)
qed

lemma example_alloc_movable:
  "cm_alloc example_movable 0x1000 1 0 (example_created 2 4096) =
     Some (Some 0x80000000, example_movable_taken)"
  "cm_alloc example_movable 0x1000 0x100001 0 (example_created 2 4096) =
     Some (Some 0x80000000, example_movable_taken)"
  unfolding cm_alloc_def example_shifts
  by (simp_all add: example_created_def emit_def example_first_page alloc_result_def
      example_movable_taken_def phys_to_pfn_def PAGE_SHIFT_def drop_bit_eq_div)

lemma example_alloc_low:
  "cm_alloc example_extern 0x1000 1 0 example_low = Some (None, example_low_leaked)"
  unfolding cm_alloc_def example_shifts
  by (simp add: example_low_def emit_def example_first_page alloc_result_def
      example_low_leaked_def)

lemma example_avail:
  "gen_pool_avail example_low_pool = 16777216" "gen_pool_avail example_low_taken = 16773120"
  "gen_pool_avail example_movable_pool = 16773120"
proof -
  have f: "count_list (replicate 4096 False) False = 4096"
    using count_True_False [of "replicate 4096 False"] by (simp add: count_list_0_iff)
  have t: "count_list (set_range (replicate 4096 False) 0 1 True) True = 1"
    using count_set_range_fresh [of 0 1 "replicate 4096 False" True]
    by (simp add: count_list_0_iff)
  have "count_list (set_range (replicate 4096 False) 0 1 True) False = 4095"
    using count_True_False [of "set_range (replicate 4096 False) 0 1 True"] t by simp
  with f show "gen_pool_avail example_low_pool = 16777216"
    "gen_pool_avail example_low_taken = 16773120"
    "gen_pool_avail example_movable_pool = 16773120"
    by (simp_all add: gen_pool_avail_def example_low_pool_def example_low_taken_def
        example_movable_pool_def)
qed

section \<open>The claims on contexts and allocation\<close>

text \<open>
  Claim C9.  A call of \<^verbatim>\<open>cm_alloc\<close> with a count of zero returns \<^verbatim>\<open>NULL\<close> and leaves
  the whole state as it was: the trace gains no event (the mutex is not taken, no range
  is evicted) and no pool changes.
\<close>

theorem cm_alloc_zero_count: "cm_alloc ext cma 0 ord st = Some (None, st)"
  by (simp add: cm_alloc_def)

text \<open>
  Claim C10.  \<^verbatim>\<open>cma_destroy\<close> on a live context destroys the pool the context points
  to and nothing else: the only call it makes is \<^verbatim>\<open>gen_pool_destroy\<close>, the
  \<^verbatim>\<open>struct cma\<close> object stays allocated, and its fields, the migratetype among them,
  keep their values.
\<close>

theorem cma_destroy_frame:
  assumes "cma_objs st cma = Some c"
  shows "\<exists>st'. cma_destroy cma st = Some st' \<and> cma_objs st' = cma_objs st \<and>
           cma_objs st' cma = Some c \<and>
           pool_objs st' = (pool_objs st)(pool c := None) \<and> mm st' = mm st \<and>
           new_events st st' = [Gen_pool_destroy (pool c)]"
  using assms by (simp add: cma_destroy_def do_gen_pool_destroy_def new_events_def)

theorem cma_destroy_frame_witness:
  "cma_objs example_kernel 0x1000 = Some example_cma \<and>
   (\<exists>st'. cma_destroy 0x1000 example_kernel = Some st' \<and> cma_objs st' = cma_objs example_kernel \<and>
      cma_objs st' 0x1000 = Some example_cma \<and>
      pool_objs st' = (pool_objs example_kernel)(pool example_cma := None) \<and>
      mm st' = mm example_kernel \<and>
      new_events example_kernel st' = [Gen_pool_destroy (pool example_cma)])"
  using cma_destroy_frame [OF example_objs(1)] example_objs(1) by blast


lemma div_round_up_mult: "0 < m \<Longrightarrow> (k * m + m - 1) div m = (k :: nat)"
proof -
  assume m: "0 < m"
  then obtain d where d: "m = Suc d" by (cases m) simp_all
  have "k * m + m - 1 = d + k * m" by (simp add: d)
  then have "(k * m + m - 1) div m = (d + k * m) div m" by simp
  also have "\<dots> = k + d div m" using m by (intro div_mult_self1) simp
  also have "\<dots> = k" by (simp add: d)
  finally show ?thesis .
qed

lemma count_shift:
  assumes "0 < sint (count :: cint)" "sint count < 2 ^ 20"
  shows "unat (push_bit PAGE_SHIFT count :: ulong) = nat (sint count) * 2 ^ PAGE_SHIFT"
    and "push_bit PAGE_SHIFT count \<noteq> (0 :: ulong)"
    and "units (p\<lparr> pool_order := PAGE_SHIFT \<rparr>) (push_bit PAGE_SHIFT count) = nat (sint count)"
proof -
  have "uint count = take_bit 32 (sint count)" by (simp add: uint_sint)
  also have "\<dots> = sint count"
    using assms by (intro take_bit_int_eq_self) simp_all
  finally have u: "unat count = nat (sint count)" by (simp add: unat_eq_nat_uint)
  with assms have b: "0 < unat count" "unat count < 2 ^ 20" by simp_all
  have "unat (push_bit PAGE_SHIFT count :: ulong) = take_bit 32 (push_bit PAGE_SHIFT (unat count))"
    by (simp add: unsigned_push_bit_eq)
  also have "\<dots> = push_bit PAGE_SHIFT (unat count)"
    using b by (intro take_bit_nat_eq_self) (simp add: push_bit_eq_mult PAGE_SHIFT_def)
  finally show s: "unat (push_bit PAGE_SHIFT count :: ulong) = nat (sint count) * 2 ^ PAGE_SHIFT"
    by (simp add: push_bit_eq_mult u)
  with b u show "push_bit PAGE_SHIFT count \<noteq> (0 :: ulong)"
    by (metis mult_is_0 neq0_conv power_not_zero unat_0 zero_neq_numeral)
  show "units (p\<lparr> pool_order := PAGE_SHIFT \<rparr>) (push_bit PAGE_SHIFT count) = nat (sint count)"
    by (simp add: units_def s div_round_up_mult del: One_nat_def)
qed

text \<open>
  Within the range of the arithmetic the result is as asked for: for every count with
  \<open>0 < count < 2 ^ 20\<close> and every order with \<open>order + 12 < 2 ^ 32\<close>, a successful call
  returns an address that is a multiple of \<open>2 ^ order\<close> pages and has taken exactly
  \<open>count\<close> pages, starting at that address, from the pool.
\<close>

lemma cm_alloc_aligned_exact:
  assumes c: "cma_objs st cma = Some c" and p: "pool_objs st (pool c) = Some p"
    and wf: "pool_wf p"
    and count: "0 < sint count" "sint count < 2 ^ 20"
    and ord: "unat ord + 12 < 2 ^ 32"
    and run: "cm_alloc ext cma count ord st = Some (Some a, st')"
  shows "aligned_pages a (unat ord) \<and>
         (\<exists>p'. pool_objs st' (pool c) = Some p' \<and> claimed p p' a (nat (sint count)))"
proof -
  let ?sz = "push_bit PAGE_SHIFT count :: ulong"
  from wf have o: "pool_order p = PAGE_SHIFT" by (simp add: pool_wf_def)
  then have po: "p\<lparr> pool_order := PAGE_SHIFT \<rparr> = p" by simp
  have sz: "?sz \<noteq> 0" using count by (rule count_shift(2))
  have n: "units p ?sz = nat (sint count)"
    using count_shift(3) [OF count, of p] by (simp add: po)
  have ao: "unat (ord + 12) = unat ord + 12"
    using ord by (simp add: unat_add_lem [THEN iffD1])
  from cm_alloc_cases [OF c p wf, of ext count ord] run
  obtain p' where t: "gen_pool_alloc_aligned p ?sz (unat (ord + 12)) = Some (a, p')"
    and upd: "pool_objs st' = (pool_objs st)(pool c \<mapsto> p')"
    by auto
  from upd have st': "pool_objs st' (pool c) = Some p'" by simp
  from alloc_SomeD [OF t] obtain i where i: "i < length (chunk_bits p)"
    and a: "a = unit_addr p i" and al: "2 ^ unat (ord + 12) dvd unat a"
    and f: "range_free (chunk_bits p) i (units p ?sz)"
    and p': "p' = p\<lparr> chunk_bits := set_range (chunk_bits p) i (units p ?sz) True \<rparr>"
    by blast
  have "aligned_pages a (unat ord)"
    using al by (simp add: aligned_pages_def ao power_add PAGE_SHIFT_def)
  moreover have "claimed p p' a (nat (sint count))"
    unfolding claimed_def list_ex_iff
    using i f p' unit_index(2) [OF wf i] a n by auto
  ultimately show ?thesis using st' by blast
qed

lemma cm_alloc_aligned_exact_example:
  "cma_objs example_kernel 0x1000 = Some example_cma \<and>
   pool_objs example_kernel (pool example_cma) = Some example_pool \<and> pool_wf example_pool \<and>
   0 < sint (2 :: cint) \<and> sint (2 :: cint) < 2 ^ 20 \<and> unat (1 :: 32 word) + 12 < 2 ^ 32 \<and>
   cm_alloc example_extern 0x1000 2 1 example_kernel = Some (Some 0x80000000, example_after_two) \<and>
   aligned_pages 0x80000000 (unat (1 :: 32 word)) \<and>
   (\<exists>p'. pool_objs example_after_two (pool example_cma) = Some p' \<and>
      claimed example_pool p' 0x80000000 (nat (sint (2 :: cint))))"
proof -
  have h: "0 < sint (2 :: cint)" "sint (2 :: cint) < 2 ^ 20" "unat (1 :: 32 word) + 12 < 2 ^ 32"
    by simp_all
  from cm_alloc_aligned_exact [OF example_objs h example_allocs(4)] example_objs h example_allocs(4)
  show ?thesis by blast
qed

lemma aligned_pages_big:
  assumes "20 \<le> k" "a \<noteq> 0"
  shows "\<not> aligned_pages a k"
proof
  assume "aligned_pages a k"
  then have d: "2 ^ k * 2 ^ PAGE_SHIFT dvd unat a" by (simp add: aligned_pages_def)
  from assms(2) have "0 < unat a" by (simp add: unat_gt_0)
  with d have "2 ^ k * 2 ^ PAGE_SHIFT \<le> unat a" by (rule dvd_imp_le)
  moreover have "(2 :: nat) ^ 20 \<le> 2 ^ k" using assms(1) by (intro power_increasing) simp_all
  then have "(2 :: nat) ^ 20 * 2 ^ PAGE_SHIFT \<le> 2 ^ k * 2 ^ PAGE_SHIFT" by simp
  moreover have "unat a < 2 ^ 32" using unsigned_less [of a] by simp
  ultimately show False by (simp add: PAGE_SHIFT_def)
qed

text \<open>
  Claim C2.  A successful call is to return a range of \<open>count\<close> pages aligned to
  \<open>2 ^ order\<close> pages.  \<^verbatim>\<open>cm_alloc\<close> computes \<^verbatim>\<open>count << PAGE_SHIFT\<close> and \<^verbatim>\<open>order+12\<close>
  without a check of their range, and both wrap at 32 bits: a request for \<^verbatim>\<open>0x100001\<close>
  pages succeeds and takes a single page, and a request with order \<^verbatim>\<open>0xFFFFFFF4\<close> is
  served with alignment order 0.
\<close>

theorem cm_alloc_wraps_counterexample:
  "0 < sint (0x100001 :: cint) \<and>
   cm_alloc example_extern 0x1000 0x100001 0 example_kernel = Some (Some 0x80000000, example_after_one) \<and>
   pool_objs example_after_one 0x2000 = Some example_pool_one \<and>
   \<not> claimed example_pool example_pool_one 0x80000000 (nat (sint (0x100001 :: cint))) \<and>
   claimed example_pool example_pool_one 0x80000000 1 \<and>
   cm_alloc example_extern 0x1000 1 0xFFFFFFF4 example_kernel = Some (Some 0x80000000, example_after_one) \<and>
   \<not> aligned_pages 0x80000000 (unat (0xFFFFFFF4 :: 32 word))"
proof -
  have s: "sint (0x100001 :: cint) = 1048577" by simp
  have 1: "\<not> claimed example_pool example_pool_one 0x80000000 (nat (sint (0x100001 :: cint)))"
    by (simp add: s claimed_def example_pool_def upt4 range_free_def)
  have 2: "claimed example_pool example_pool_one 0x80000000 1"
    by (simp add: claimed_def example_pool_def example_pool_one_def upt4 range_free_def set_range_def)
  have 3: "\<not> aligned_pages 0x80000000 (unat (0xFFFFFFF4 :: 32 word))"
    by (rule aligned_pages_big) simp_all
  have 4: "pool_objs example_after_one 0x2000 = Some example_pool_one"
    by (simp add: example_after_one_def)
  show ?thesis using s 1 2 3 4 example_allocs(1,2) by simp
qed

text \<open>
  Claim C3, amended.  The tag of a context is its \<^verbatim>\<open>migratetype\<close> field, which \<^verbatim>\<open>cm_alloc\<close>
  tests with \<^verbatim>\<open>if (cma->migratetype)\<close>.  A call of \<^verbatim>\<open>cm_alloc\<close> invokes
  \<^verbatim>\<open>alloc_contig_range\<close> exactly when the pool has handed it a range at an address
  other than 0 and the field is not zero.  With the field zero, a successful call returns
  the start of the claimed range, leaves the page allocator untouched and makes no call
  but taking and releasing the mutex.  The field of a context that \<^verbatim>\<open>cma_create\<close> has
  built is \<^verbatim>\<open>MIGRATE_MOVABLE\<close> when the region lies in the movable zone and
  \<^verbatim>\<open>MIGRATE_CMA\<close> otherwise.
\<close>

theorem cm_alloc_evicts_iff:
  assumes c: "cma_objs st cma = Some c" and p: "pool_objs st (pool c) = Some p"
    and run: "cm_alloc ext cma count ord st = Some (r, st')"
  shows "(list_ex is_evict (new_events st st') \<longleftrightarrow>
            cma \<noteq> 0 \<and> push_bit PAGE_SHIFT count \<noteq> (0 :: ulong) \<and>
            (\<exists>start p'. gen_pool_alloc_aligned p (push_bit PAGE_SHIFT count) (unat (ord + 12))
                 = Some (start, p') \<and> start \<noteq> 0) \<and>
            migratetype c \<noteq> 0) \<and>
         (migratetype c = 0 \<and> r \<noteq> None \<longrightarrow>
            (\<exists>start p'. gen_pool_alloc_aligned p (push_bit PAGE_SHIFT count) (unat (ord + 12))
                 = Some (start, p') \<and>
               r = Some start \<and> pool_objs st' = (pool_objs st)(pool c \<mapsto> p') \<and>
               mm st' = mm st \<and> new_events st st' = [Mutex_lock, Mutex_unlock])) \<and>
         (cma_create cfg extc startc szc stb = (Inr cmac, stc) \<longrightarrow>
            (\<exists>cc. cma_objs stc cmac = Some cc \<and>
               migratetype cc = (if page_zonenum extc (mm stb) (phys_to_pfn startc) = ZONE_MOVABLE cfg
                                 then MIGRATE_MOVABLE cfg else MIGRATE_CMA cfg)))"
proof -
  let ?take = "gen_pool_alloc_aligned p (push_bit PAGE_SHIFT count) (unat (ord + 12))"
  have calls: "(list_ex is_evict (new_events st st') \<longleftrightarrow>
            cma \<noteq> 0 \<and> push_bit PAGE_SHIFT count \<noteq> (0 :: ulong) \<and>
            (\<exists>start p'. ?take = Some (start, p') \<and> start \<noteq> 0) \<and> migratetype c \<noteq> 0) \<and>
         (migratetype c = 0 \<and> r \<noteq> None \<longrightarrow>
            (\<exists>start p'. ?take = Some (start, p') \<and>
               r = Some start \<and> pool_objs st' = (pool_objs st)(pool c \<mapsto> p') \<and>
               mm st' = mm st \<and> new_events st st' = [Mutex_lock, Mutex_unlock]))"
  proof (cases "cma = 0 \<or> push_bit PAGE_SHIFT count = (0 :: ulong)")
    case True
    with run have "r = None" "st' = st" by (simp_all add: cm_alloc_dead)
    with True show ?thesis by (auto simp: new_events_def)
  next
    case False
    then have nz: "cma \<noteq> 0" "push_bit PAGE_SHIFT count \<noteq> (0 :: ulong)" by simp_all
    note live = cm_alloc_live [OF c p nz, of ext ord]
    show ?thesis
    proof (cases ?take)
      case None
      with run live have "r = None"
        "st' = emit Mutex_unlock ((emit Mutex_lock st)\<lparr> pool_objs := (pool_objs st)(pool c \<mapsto> p) \<rparr>)"
        by (simp_all add: alloc_result_def)
      with None nz show ?thesis by (simp add: new_events_def is_evict_def)
    next
      case (Some q)
      obtain start p' where q: "q = (start, p')" by (cases q)
      show ?thesis
        using run Some q nz
        by (auto simp: live alloc_result_def Let_def new_events_def is_evict_def
            split: prod.splits if_splits)
    qed
  qed
  have tag: "\<exists>cc. cma_objs stc cmac = Some cc \<and>
      migratetype cc = (if page_zonenum extc (mm stb) (phys_to_pfn startc) = ZONE_MOVABLE cfg
                        then MIGRATE_MOVABLE cfg else MIGRATE_CMA cfg)"
    if cr: "cma_create cfg extc startc szc stb = (Inr cmac, stc)"
  proof -
    from cma_create_success [OF cr] obtain mt pl
      where chk: "uu_cma_check_range cfg extc (mm stb) startc szc = Inr mt"
        and obj: "cma_objs stc cmac = Some \<lparr> migratetype = mt, pool = pl \<rparr>"
      by blast
    from cma_check_range_tag [OF chk] obj show ?thesis by auto
  qed
  from calls tag show ?thesis by blast
qed

theorem cm_alloc_evicts_iff_witness:
  "cma_objs example_kernel 0x1000 = Some example_cma \<and>
   pool_objs example_kernel (pool example_cma) = Some example_pool \<and>
   cm_alloc example_extern 0x1000 1 0 example_kernel = Some (Some 0x80000000, example_after_one) \<and>
   migratetype example_cma \<noteq> 0 \<and>
   list_ex is_evict (new_events example_kernel example_after_one) \<and>
   cma_objs example_none 0x1000 = Some (example_cma\<lparr> migratetype := 0 \<rparr>) \<and>
   pool_objs example_none (pool (example_cma\<lparr> migratetype := 0 \<rparr>)) = Some example_pool \<and>
   cm_alloc example_extern 0x1000 1 0 example_none = Some (Some 0x80000000, example_none_after) \<and>
   \<not> list_ex is_evict (new_events example_none example_none_after) \<and>
   mm example_none_after = mm example_none \<and>
   new_events example_none example_none_after = [Mutex_lock, Mutex_unlock] \<and>
   cma_create example_platform example_movable 0x80000000 0x1000000 example_boot
     = (Inr 0x1000, example_created 2 4096) \<and>
   (\<exists>cc. cma_objs (example_created 2 4096) 0x1000 = Some cc \<and>
      migratetype cc = MIGRATE_MOVABLE example_platform)"
proof -
  have o: "cma_objs example_none 0x1000 = Some (example_cma\<lparr> migratetype := 0 \<rparr>)"
    "pool_objs example_none (pool (example_cma\<lparr> migratetype := 0 \<rparr>)) = Some example_pool"
    by (simp_all add: example_none_def example_kernel_def example_cma_def)
  have mt: "migratetype example_cma \<noteq> 0" "migratetype (example_cma\<lparr> migratetype := 0 \<rparr>) = 0"
    by (simp_all add: example_cma_def)
  have nz: "(0x1000 :: ulong) \<noteq> 0" "push_bit PAGE_SHIFT (1 :: cint) \<noteq> (0 :: ulong)"
    unfolding example_shifts by simp_all
  have t1: "gen_pool_alloc_aligned example_pool (push_bit PAGE_SHIFT (1 :: cint))
      (unat (0 + 12 :: 32 word)) = Some (0x80000000, example_pool_one)"
    unfolding example_shifts by (simp add: example_takes)
  have t1': "\<exists>start p'. gen_pool_alloc_aligned example_pool (push_bit PAGE_SHIFT (1 :: cint))
      (unat (0 + 12 :: 32 word)) = Some (start, p') \<and> start \<noteq> 0"
    using t1 by simp
  have z: "page_zonenum example_movable (mm example_boot) (phys_to_pfn 0x80000000)
      = ZONE_MOVABLE example_platform"
    by simp
  note a = cm_alloc_evicts_iff [OF example_objs(1,2) example_allocs(3),
      where cfg = example_platform and extc = example_movable and startc = "0x80000000"
        and szc = "0x1000000" and stb = example_boot and cmac = "0x1000"
        and stc = "example_created 2 4096"]
  note b = cm_alloc_evicts_iff [OF o example_allocs(5),
      where cfg = example_platform and extc = example_movable and startc = "0x80000000"
        and szc = "0x1000000" and stb = example_boot and cmac = "0x1000"
        and stc = "example_created 2 4096"]
  note a1 = a [THEN conjunct1] and a3 = a [THEN conjunct2, THEN conjunct2]
  note b1 = b [THEN conjunct1] and b2 = b [THEN conjunct2, THEN conjunct1]
  have 1: "list_ex is_evict (new_events example_kernel example_after_one)"
    unfolding a1 using mt(1) nz t1' by simp
  have 2: "\<not> list_ex is_evict (new_events example_none example_none_after)"
    unfolding b1 using mt(2) by simp
  from b2 mt(2) have 3: "mm example_none_after = mm example_none"
    "new_events example_none example_none_after = [Mutex_lock, Mutex_unlock]"
    by auto
  from a3 example_creates(1) z have 4: "\<exists>cc. cma_objs (example_created 2 4096) 0x1000 = Some cc \<and>
      migratetype cc = MIGRATE_MOVABLE example_platform"
    by simp
  from example_objs o example_allocs(3,5) mt(1) 1 2 3 4 example_creates(1) show ?thesis
    by (intro conjI) assumption+
qed

text \<open>
  The tag \<^verbatim>\<open>cma_create\<close> stores for a region in the movable zone is
  \<^verbatim>\<open>MIGRATE_MOVABLE\<close>.  Where that constant is not zero (it is 2 in
  \<^verbatim>\<open>linux/mmzone.h\<close>, as in the example platform), a context over movable memory has
  its ranges evicted like any other.
\<close>

theorem movable_context_evicts:
  "page_zonenum example_movable () (phys_to_pfn 0x80000000) = ZONE_MOVABLE example_platform \<and>
   cma_create example_platform example_movable 0x80000000 0x1000000 example_boot
     = (Inr 0x1000, example_created (MIGRATE_MOVABLE example_platform) 4096) \<and>
   map_option fst (cm_alloc example_movable 0x1000 1 0
     (example_created (MIGRATE_MOVABLE example_platform) 4096)) = Some (Some 0x80000000) \<and>
   list_ex is_evict (alloc_events example_movable 0x1000 1 0
     (example_created (MIGRATE_MOVABLE example_platform) 4096))"
proof -
  have "alloc_events example_movable 0x1000 1 0 (example_created 2 4096) =
      [Mutex_lock, Alloc_contig_range 0x80000 0x80001 2, Mutex_unlock]"
    by (simp add: alloc_events_def example_alloc_movable new_events_def example_movable_taken_def)
      (simp add: example_created_def)
  then show ?thesis
    by (simp add: example_creates example_alloc_movable is_evict_def)
qed


section \<open>Accounting of the pool\<close>

lemma shift_pages: "unat (push_bit PAGE_SHIFT (c :: cint) :: ulong) = 2 ^ PAGE_SHIFT * (unat (push_bit PAGE_SHIFT c :: ulong) div 2 ^ PAGE_SHIFT)"
proof -
  have "take_bit PAGE_SHIFT (push_bit PAGE_SHIFT c) = (0 :: ulong)"
    by (simp add: take_bit_push_bit)
  then have "2 ^ PAGE_SHIFT dvd unat (push_bit PAGE_SHIFT c :: ulong)"
    by (simp add: and_mask_dvd_nat take_bit_eq_mask)
  then show ?thesis by simp
qed

lemma units_pages:
  assumes "pool_order p = PAGE_SHIFT"
  shows "2 ^ PAGE_SHIFT * len p x = unat (push_bit PAGE_SHIFT (snd x) :: ulong)"
proof -
  obtain k where k: "unat (push_bit PAGE_SHIFT (snd x) :: ulong) = 2 ^ PAGE_SHIFT * k"
    using shift_pages [of "snd x"] by blast
  have "(2 ^ PAGE_SHIFT * k + 2 ^ PAGE_SHIFT - 1) div 2 ^ PAGE_SHIFT = k"
    using div_round_up_mult [of "2 ^ PAGE_SHIFT" k] by (simp add: mult.commute)
  then show ?thesis by (simp add: len_def units_def assms k)
qed

lemma units_pos: "sz \<noteq> 0 \<Longrightarrow> 0 < units p sz"
proof -
  assume "sz \<noteq> 0"
  then have "0 < unat sz" by (simp add: unat_gt_0)
  then have "2 ^ pool_order p \<le> unat sz + 2 ^ pool_order p - 1" by simp
  then have "2 ^ pool_order p div 2 ^ pool_order p \<le> (unat sz + 2 ^ pool_order p - 1) div 2 ^ pool_order p"
    by (rule div_le_mono)
  then show ?thesis by (simp add: units_def)
qed

lemma bits_update_simps [simp]:
  "lo (p\<lparr> chunk_bits := b \<rparr>) = lo p" "len (p\<lparr> chunk_bits := b \<rparr>) = len p"
  "sep (p\<lparr> chunk_bits := b \<rparr>) = sep p" "unit_addr (p\<lparr> chunk_bits := b \<rparr>) = unit_addr p"
  "pool_wf (p\<lparr> chunk_bits := b \<rparr>) \<longleftrightarrow> pool_order p = PAGE_SHIFT \<and>
     unat (chunk_start p) + 2 ^ PAGE_SHIFT * length b \<le> 2 ^ 32"
  by (auto simp: lo_def len_def sep_def unit_addr_def units_def pool_wf_def fun_eq_iff)

lemma pool_inv_alloc:
  assumes inv: "pool_inv p outs"
    and t: "gen_pool_alloc_aligned p (push_bit PAGE_SHIFT c) ao = Some (a, p')"
    and nz: "push_bit PAGE_SHIFT c \<noteq> (0 :: ulong)"
  shows "pool_inv p' (outs @ [(a, c)])"
proof -
  let ?n = "units p (push_bit PAGE_SHIFT c)"
  from inv have wf: "pool_wf p" and held: "\<forall>x\<in>set outs. held p x"
    and srt: "sorted_wrt (sep p) outs"
    and cnt: "count_list (chunk_bits p) True = sum_list (map (len p) outs)"
    by (simp_all add: pool_inv_def)
  from alloc_SomeD [OF t] obtain i where i: "i < length (chunk_bits p)"
    and a: "a = unit_addr p i" and f: "range_free (chunk_bits p) i ?n"
    and p': "p' = p\<lparr> chunk_bits := set_range (chunk_bits p) i ?n True \<rparr>"
    by blast
  from f have fit: "i + ?n \<le> length (chunk_bits p)"
    and free: "\<forall>j. i \<le> j \<and> j < i + ?n \<longrightarrow> \<not> chunk_bits p ! j"
    by (simp_all add: range_free_iff)
  have n: "0 < ?n" using nz by (rule units_pos)
  have lo_new: "lo p (a, c) = i"
    using unit_index(1) [OF wf i] by (simp add: lo_def a)
  have len_new: "len p (a, c) = ?n" by (simp add: len_def)
  have wf': "pool_wf p'" using wf by (simp add: p' pool_wf_def)
  have held_old: "held p' x" if "x \<in> set outs" for x
  proof -
    from held that have h: "held p x" by blast
    then show ?thesis
      by (auto simp: held_def p' nth_set_range)
  qed
  have held_new: "held p' (a, c)"
    using fit n lo_new len_new a by (auto simp: held_def p' nth_set_range)
  have sep_new: "sep p x (a, c)" if "x \<in> set outs" for x
  proof (rule ccontr)
    assume ns: "\<not> sep p x (a, c)"
    from held that have h: "held p x" by blast
    define j where "j = max (lo p x) i"
    from ns h n have "lo p x \<le> j \<and> j < lo p x + len p x" "i \<le> j \<and> j < i + ?n"
      by (auto simp: sep_def lo_new len_new held_def j_def)
    with h free show False by (auto simp: held_def)
  qed
  have cnt': "count_list (chunk_bits p') True = sum_list (map (len p) (outs @ [(a, c)]))"
    using count_set_range_fresh [OF fit, of True] free
    by (simp add: p' cnt len_new)
  show ?thesis
    using wf' held_old held_new sep_new srt cnt'
    by (auto simp: pool_inv_def sorted_wrt_append p')
qed

lemma pool_inv_free:
  assumes inv: "pool_inv p outs" and k: "k < length outs"
  shows "pool_inv (gen_pool_free p (fst (outs ! k)) (push_bit PAGE_SHIFT (snd (outs ! k))))
           (take k outs @ drop (Suc k) outs)"
proof -
  let ?x = "outs ! k"
  let ?rest = "take k outs @ drop (Suc k) outs"
  let ?p' = "p\<lparr> chunk_bits := set_range (chunk_bits p) (lo p ?x) (len p ?x) False \<rparr>"
  from inv have wf: "pool_wf p" and held: "\<forall>x\<in>set outs. held p x"
    and srt: "sorted_wrt (sep p) outs"
    and cnt: "count_list (chunk_bits p) True = sum_list (map (len p) outs)"
    by (simp_all add: pool_inv_def)
  have p': "gen_pool_free p (fst ?x) (push_bit PAGE_SHIFT (snd ?x)) = ?p'"
    by (simp add: gen_pool_free_def lo_def len_def)
  have split: "outs = take k outs @ ?x # drop (Suc k) outs"
    using k by (rule id_take_nth_drop)
  from held k have hx: "held p ?x" by simp
  have srt_split: "sorted_wrt (sep p) (take k outs @ ?x # drop (Suc k) outs)"
    using srt split by simp
  have sepx: "sep p y ?x" if "y \<in> set ?rest" for y
  proof -
    from that srt_split show ?thesis
      by (auto simp: sorted_wrt_append sep_def)
  qed
  have rest_sub: "set ?rest \<subseteq> set outs"
    by (auto dest: in_set_takeD in_set_dropD)
  have held_rest: "held ?p' y" if "y \<in> set ?rest" for y
  proof -
    from that rest_sub held have h: "held p y" by blast
    from sepx [OF that] h show ?thesis
      by (auto simp: held_def sep_def nth_set_range)
  qed
  have srt_rest: "sorted_wrt (sep p) ?rest"
    using srt_split by (auto simp: sorted_wrt_append)
  from hx have fit: "lo p ?x + len p ?x \<le> length (chunk_bits p)"
    and all: "\<forall>j. lo p ?x \<le> j \<and> j < lo p ?x + len p ?x \<longrightarrow> chunk_bits p ! j = True"
    by (simp_all add: held_def)
  have "sum_list (map (len p) outs) = sum_list (map (len p) ?rest) + len p ?x"
    by (subst split) simp
  with count_set_range_other [OF fit all] cnt
  have cnt': "count_list (chunk_bits ?p') True = sum_list (map (len p) ?rest)"
    by simp
  show ?thesis
    unfolding p' using wf held_rest srt_rest cnt'
    by (auto simp: pool_inv_def pool_wf_def)
qed

lemma pool_inv_base:
  "gen_pool_alloc_aligned p sz ao = Some (a, p') \<Longrightarrow>
     chunk_start p' = chunk_start p \<and> length (chunk_bits p') = length (chunk_bits p)"
  "chunk_start (gen_pool_free p a sz) = chunk_start p"
  "length (chunk_bits (gen_pool_free p a sz)) = length (chunk_bits p)"
  using alloc_SomeD [of p sz ao a p'] by (auto simp: gen_pool_free_def)

lemma run_ops_inv:
  assumes "cma \<noteq> 0" "cma_objs st cma = Some c" "pool_objs st (pool c) = Some p"
    and "pool_inv p outs" "chunk_start p \<noteq> 0"
    and "\<forall>x\<in>set outs. 0 < sint (snd x) \<and> sint (snd x) < 2 ^ 20"
    and "\<forall>count ord. Alloc count ord \<in> set ops \<longrightarrow> 0 < sint count \<and> sint count < 2 ^ 20"
  shows "\<exists>st' outs' p'. run_ops ext cma ops st outs = Some (st', outs') \<and>
           cma_objs st' cma = Some c \<and> pool_objs st' (pool c) = Some p' \<and> pool_inv p' outs' \<and>
           length (chunk_bits p') = length (chunk_bits p) \<and>
           (\<forall>x\<in>set outs'. 0 < sint (snd x) \<and> sint (snd x) < 2 ^ 20)"
  using assms
proof (induction ops arbitrary: st outs p)
  case Nil
  then show ?case by simp
next
  case (Cons x ops)
  from Cons.prems(7) have rest:
    "\<forall>count ord. Alloc count ord \<in> set ops \<longrightarrow> 0 < sint count \<and> sint count < 2 ^ 20"
    by simp
  show ?case
  proof (cases x)
    case (Alloc count ord)
    from Cons.prems have wf: "pool_wf p" by (simp add: pool_inv_def)
    from Cons.prems(7) Alloc have bound: "0 < sint count \<and> sint count < 2 ^ 20" by simp
    from cm_alloc_cases [OF Cons.prems(2,3) wf, of ext count ord]
    show ?thesis
    proof (elim disjE exE conjE)
      fix st'
      assume r: "cm_alloc ext cma count ord st = Some (None, st')"
        and same: "pool_objs st' = pool_objs st" "cma_objs st' = cma_objs st"
      have "\<exists>st'' outs' p'. run_ops ext cma ops st' outs = Some (st'', outs') \<and>
           cma_objs st'' cma = Some c \<and> pool_objs st'' (pool c) = Some p' \<and> pool_inv p' outs' \<and>
           length (chunk_bits p') = length (chunk_bits p) \<and>
           (\<forall>x\<in>set outs'. 0 < sint (snd x) \<and> sint (snd x) < 2 ^ 20)"
        using Cons.prems(1-6) same by (intro Cons.IH rest) simp_all
      then show ?thesis by (simp add: Alloc r)
    next
      fix p' st'
      assume "gen_pool_alloc_aligned p (push_bit PAGE_SHIFT count) (unat (ord + 12)) = Some (0, p')"
      with take_nonzero [OF wf Cons.prems(5)] show ?thesis by blast
    next
      fix a p' st'
      assume r: "cm_alloc ext cma count ord st = Some (Some a, st')"
        and nz: "push_bit PAGE_SHIFT count \<noteq> (0 :: ulong)"
        and t: "gen_pool_alloc_aligned p (push_bit PAGE_SHIFT count) (unat (ord + 12)) = Some (a, p')"
        and upd: "pool_objs st' = (pool_objs st)(pool c \<mapsto> p')" "cma_objs st' = cma_objs st"
      have inv': "pool_inv p' (outs @ [(a, count)])"
        using Cons.prems(4) t nz by (rule pool_inv_alloc)
      from pool_inv_base(1) [OF t] Cons.prems(5)
      have base': "chunk_start p' \<noteq> 0" and len': "length (chunk_bits p') = length (chunk_bits p)"
        by simp_all
      have outs': "\<forall>x\<in>set (outs @ [(a, count)]). 0 < sint (snd x) \<and> sint (snd x) < 2 ^ 20"
        using Cons.prems(6) bound by simp
      have "\<exists>st'' outs' p''. run_ops ext cma ops st' (outs @ [(a, count)]) = Some (st'', outs') \<and>
           cma_objs st'' cma = Some c \<and> pool_objs st'' (pool c) = Some p'' \<and> pool_inv p'' outs' \<and>
           length (chunk_bits p'') = length (chunk_bits p') \<and>
           (\<forall>x\<in>set outs'. 0 < sint (snd x) \<and> sint (snd x) < 2 ^ 20)"
        using Cons.prems(1,2) upd by (intro Cons.IH rest inv' base' outs') simp_all
      then show ?thesis by (simp add: Alloc r len')
    qed
  next
    case (Free k)
    show ?thesis
    proof (cases "k < length outs")
      case True
      let ?p' = "gen_pool_free p (fst (outs ! k)) (push_bit PAGE_SHIFT (snd (outs ! k)))"
      let ?outs' = "take k outs @ drop (Suc k) outs"
      from cm_free_live [OF Cons.prems(2,3,1), of ext "fst (outs ! k)" "snd (outs ! k)"]
      obtain st' where r: "cm_free ext cma (Some (fst (outs ! k))) (snd (outs ! k)) st = Some st'"
        and upd: "pool_objs st' = (pool_objs st)(pool c \<mapsto> ?p')" "cma_objs st' = cma_objs st"
        by blast
      have inv': "pool_inv ?p' ?outs'"
        using Cons.prems(4) True by (rule pool_inv_free)
      have base': "chunk_start ?p' \<noteq> 0" and len': "length (chunk_bits ?p') = length (chunk_bits p)"
        using Cons.prems(5) by (simp_all add: pool_inv_base)
      have "set ?outs' \<subseteq> set outs"
        by (auto dest: in_set_takeD in_set_dropD)
      with Cons.prems(6) have outs': "\<forall>x\<in>set ?outs'. 0 < sint (snd x) \<and> sint (snd x) < 2 ^ 20"
        by blast
      have "\<exists>st'' outs'' p''. run_ops ext cma ops st' ?outs' = Some (st'', outs'') \<and>
           cma_objs st'' cma = Some c \<and> pool_objs st'' (pool c) = Some p'' \<and> pool_inv p'' outs'' \<and>
           length (chunk_bits p'') = length (chunk_bits ?p') \<and>
           (\<forall>x\<in>set outs''. 0 < sint (snd x) \<and> sint (snd x) < 2 ^ 20)"
        using Cons.prems(1,2) upd by (intro Cons.IH rest inv' base' outs') simp_all
      then show ?thesis by (simp add: Free True r len')
    next
      case False
      have "\<exists>st' outs' p'. run_ops ext cma ops st outs = Some (st', outs') \<and>
           cma_objs st' cma = Some c \<and> pool_objs st' (pool c) = Some p' \<and> pool_inv p' outs' \<and>
           length (chunk_bits p') = length (chunk_bits p) \<and>
           (\<forall>x\<in>set outs'. 0 < sint (snd x) \<and> sint (snd x) < 2 ^ 20)"
        using Cons.prems(1-6) by (intro Cons.IH rest) simp_all
      then show ?thesis by (simp add: Free False)
    qed
  qed
qed

lemma pool_inv_fresh:
  assumes "2 ^ PAGE_SHIFT dvd unat sz" "unat start + unat sz < 2 ^ 32"
  shows "pool_inv \<lparr> pool_order = PAGE_SHIFT, chunk_start = start,
          chunk_bits = replicate (unat sz div 2 ^ PAGE_SHIFT) False \<rparr> []"
  using assms by (simp add: pool_inv_def pool_wf_def count_list_0_iff)

lemma pool_inv_accounts:
  assumes inv: "pool_inv p outs"
    and bound: "\<forall>x\<in>set outs. 0 < sint (snd x) \<and> sint (snd x) < 2 ^ 20"
  shows "gen_pool_avail p + outstanding_bytes outs = 2 ^ PAGE_SHIFT * length (chunk_bits p)"
    and "no_overlap outs"
proof -
  from inv have wf: "pool_wf p" and held: "\<forall>x\<in>set outs. held p x"
    and srt: "sorted_wrt (sep p) outs"
    and cnt: "count_list (chunk_bits p) True = sum_list (map (len p) outs)"
    by (simp_all add: pool_inv_def)
  from wf have o: "pool_order p = PAGE_SHIFT" by (simp add: pool_wf_def)
  have bytes: "2 ^ PAGE_SHIFT * len p x = alloc_bytes x" if "x \<in> set outs" for x
  proof -
    from bound that have "0 < sint (snd x)" "sint (snd x) < 2 ^ 20" by simp_all
    then have "unat (push_bit PAGE_SHIFT (snd x) :: ulong) = nat (sint (snd x)) * 2 ^ PAGE_SHIFT"
      by (rule count_shift(1))
    then show ?thesis by (simp add: units_pages [OF o] alloc_bytes_def)
  qed
  have "outstanding_bytes outs = sum_list (map (\<lambda>x. 2 ^ PAGE_SHIFT * len p x) outs)"
    unfolding outstanding_bytes_def by (rule arg_cong [where f = sum_list]) (simp add: bytes)
  also have "\<dots> = 2 ^ PAGE_SHIFT * sum_list (map (len p) outs)"
    by (simp add: sum_list_const_mult)
  finally have b: "outstanding_bytes outs = 2 ^ PAGE_SHIFT * count_list (chunk_bits p) True"
    by (simp add: cnt)
  show "gen_pool_avail p + outstanding_bytes outs = 2 ^ PAGE_SHIFT * length (chunk_bits p)"
    using count_True_False [of "chunk_bits p"]
    by (simp add: gen_pool_avail_def o b distrib_left [symmetric] add.commute)
  have addr: "unat (fst x) = unat (chunk_start p) + lo p x * 2 ^ PAGE_SHIFT" if "held p x" for x
  proof -
    from that have "lo p x < length (chunk_bits p)" "fst x = unit_addr p (lo p x)"
      by (simp_all add: held_def)
    with unit_index(2) [OF wf, of "lo p x"] show ?thesis by simp
  qed
  have "apart x y" if "x \<in> set outs" "y \<in> set outs" "sep p x y" for x y
  proof -
    from that held have hx: "held p x" and hy: "held p y" by blast+
    have e: "(lo p z + len p z) * 2 ^ PAGE_SHIFT = lo p z * 2 ^ PAGE_SHIFT + alloc_bytes z"
      if "z \<in> set outs" for z using bytes [OF that] by (simp add: algebra_simps)
    from that(3) consider (xy) "lo p x + len p x \<le> lo p y" | (yx) "lo p y + len p y \<le> lo p x"
      by (auto simp: sep_def)
    then show ?thesis
    proof cases
      case xy
      then have "(lo p x + len p x) * 2 ^ PAGE_SHIFT \<le> lo p y * 2 ^ PAGE_SHIFT"
        by (rule mult_le_mono1)
      then show ?thesis
        unfolding e [OF that(1)] e [OF that(2)] by (simp add: apart_def addr [OF hx] addr [OF hy])
    next
      case yx
      then have "(lo p y + len p y) * 2 ^ PAGE_SHIFT \<le> lo p x * 2 ^ PAGE_SHIFT"
        by (rule mult_le_mono1)
      then show ?thesis
        unfolding e [OF that(1)] e [OF that(2)] by (simp add: apart_def addr [OF hx] addr [OF hy])
    qed
  qed
  with srt show "no_overlap outs"
    unfolding no_overlap_def by (rule sorted_wrt_mono_rel [rotated])
qed

text \<open>
  What holds of a context whose region does not start at address 0, for requests within
  the range of the arithmetic: from the state a successful \<^verbatim>\<open>cma_create\<close> over
  \<open>sz\<close> bytes leaves, every sequence of allocations of \<open>0 < count < 2 ^ 20\<close> pages and
  of frees of outstanding allocations runs to completion, and afterwards the free space
  of the pool plus the bytes outstanding is \<open>sz\<close>, with no two outstanding allocations
  overlapping.
\<close>

lemma pool_accounting_bounded:
  assumes create: "cma_create cfg ext start sz st0 = (Inr cma, st)"
    and base: "start \<noteq> 0"
    and bound: "\<forall>count ord. Alloc count ord \<in> set ops \<longrightarrow> 0 < sint count \<and> sint count < 2 ^ 20"
  shows "\<exists>st' outs p. run_ops ext cma ops st [] = Some (st', outs) \<and>
           ctx_pool st' cma = Some p \<and>
           gen_pool_avail p + outstanding_bytes outs = unat sz \<and> no_overlap outs"
proof -
  from cma_create_success [OF create] obtain mt pl where nz: "cma \<noteq> 0"
    and al: "2 ^ PAGE_SHIFT dvd unat sz" and nw: "unat start + unat sz < 2 ^ 32"
    and c: "cma_objs st cma = Some \<lparr> migratetype = mt, pool = pl \<rparr>"
    and p: "pool_objs st pl = Some \<lparr> pool_order = PAGE_SHIFT, chunk_start = start,
          chunk_bits = replicate (unat sz div 2 ^ PAGE_SHIFT) False \<rparr>"
    by blast
  let ?c = "\<lparr> migratetype = mt, pool = pl \<rparr>"
  let ?p = "\<lparr> pool_order = PAGE_SHIFT, chunk_start = start,
          chunk_bits = replicate (unat sz div 2 ^ PAGE_SHIFT) False \<rparr>"
  have p0: "pool_objs st (pool ?c) = Some ?p" using p by simp
  have b0: "chunk_start ?p \<noteq> 0" using base by simp
  have e0: "\<forall>x\<in>set ([] :: (ulong \<times> cint) list). 0 < sint (snd x) \<and> sint (snd x) < 2 ^ 20"
    by simp
  from run_ops_inv [OF nz c p0 pool_inv_fresh [OF al nw] b0 e0 bound, of ext]
  obtain st' outs p' where r: "run_ops ext cma ops st [] = Some (st', outs)"
    and c': "cma_objs st' cma = Some ?c" and p': "pool_objs st' (pool ?c) = Some p'"
    and inv: "pool_inv p' outs" and len: "length (chunk_bits p') = length (chunk_bits ?p)"
    and outs: "\<forall>x\<in>set outs. 0 < sint (snd x) \<and> sint (snd x) < 2 ^ 20"
    by blast
  have "2 ^ PAGE_SHIFT * length (chunk_bits p') = unat sz"
    using al by (simp add: len)
  with pool_inv_accounts [OF inv outs] have "gen_pool_avail p' + outstanding_bytes outs = unat sz"
    "no_overlap outs" by simp_all
  moreover have "ctx_pool st' cma = Some p'"
    using c' p' by (simp add: ctx_pool_def)
  ultimately show ?thesis using r by blast
qed

text \<open>
  Claim C4.  Free space plus outstanding allocations is to equal the region size after
  every sequence of allocations and frees.  Two slips of \<^verbatim>\<open>cm_alloc\<close> break it.  On the
  context over 16 MiB at address 0, the first allocation of one page returns \<^verbatim>\<open>NULL\<close>
  and leaves the page taken: nothing is outstanding and a page of free space is gone.
  On the context at \<^verbatim>\<open>0x80000000\<close>, an allocation of \<^verbatim>\<open>0x100001\<close> pages succeeds and
  takes one page from the pool.
\<close>

theorem pool_accounting_broken:
  "cma_create example_platform example_extern 0 0x1000000 example_boot = (Inr 0x1000, example_low) \<and>
   run_ops example_extern 0x1000 [Alloc 1 0] example_low [] = Some (example_low_leaked, []) \<and>
   ctx_pool example_low_leaked 0x1000 = Some example_low_taken \<and>
   gen_pool_avail example_low_taken + outstanding_bytes [] \<noteq> unat (0x1000000 :: ulong) \<and>
   cma_create example_platform example_movable 0x80000000 0x1000000 example_boot
     = (Inr 0x1000, example_created 2 4096) \<and>
   run_ops example_movable 0x1000 [Alloc 0x100001 0] (example_created 2 4096) []
     = Some (example_movable_taken, [(0x80000000, 0x100001)]) \<and>
   ctx_pool example_movable_taken 0x1000 = Some example_movable_pool \<and>
   gen_pool_avail example_movable_pool + outstanding_bytes [(0x80000000, 0x100001)]
     \<noteq> unat (0x1000000 :: ulong)"
proof -
  have p: "ctx_pool example_low_leaked 0x1000 = Some example_low_taken"
    "ctx_pool example_movable_taken 0x1000 = Some example_movable_pool"
    by (simp_all add: ctx_pool_def example_low_leaked_def example_low_def
        example_movable_taken_def example_created_def)
  have r: "run_ops example_extern 0x1000 [Alloc 1 0] example_low [] = Some (example_low_leaked, [])"
    "run_ops example_movable 0x1000 [Alloc 0x100001 0] (example_created 2 4096) []
       = Some (example_movable_taken, [(0x80000000, 0x100001)])"
    by (simp_all add: example_alloc_low example_alloc_movable)
  have s: "sint (0x100001 :: cint) = 1048577" by simp
  have a: "gen_pool_avail example_low_taken + outstanding_bytes [] \<noteq> unat (0x1000000 :: ulong)"
    "gen_pool_avail example_movable_pool + outstanding_bytes [(0x80000000, 0x100001)]
       \<noteq> unat (0x1000000 :: ulong)"
    by (simp_all add: example_avail outstanding_bytes_def alloc_bytes_def s PAGE_SHIFT_def)
  show ?thesis
    using example_creates(1,3) r p a by (intro conjI) assumption+
qed

text \<open>
  Claim C8.  \<^verbatim>\<open>__cma_check_range\<close> counts the pageblocks to check as
  \<^verbatim>\<open>(pfn - start) >> PAGE_SHIFT\<close>, a number of pages shifted by the page shift, where
  the number of pageblocks is that number of pages shifted by \<^verbatim>\<open>pageblock_order\<close>.  With
  pageblocks of 1024 pages, a region of 8192 pages has its first two pageblocks checked
  and the other six not: \<^verbatim>\<open>cma_create\<close> succeeds on a region whose third pageblock
  carries a tag that differs from the region's.
\<close>

theorem cma_create_unchecked_pageblock:
  "cma_create example_platform example_mixed 0x80000000 0x2000000 example_boot
     = (Inr 0x1000, example_created (MIGRATE_CMA example_platform) 8192) \<and>
   phys_to_pfn 0x80000000 \<le> 0x80800 \<and> 0x80800 < phys_to_pfn (0x80000000 + 0x2000000) \<and>
   get_pageblock_migratetype example_mixed () 0x80800 \<noteq> MIGRATE_CMA example_platform"
  by (simp add: example_creates phys_to_pfn_def PAGE_SHIFT_def drop_bit_eq_div)

end
